theory Spec2Isabelle
  imports Complex_Main "HOL-Library.AList" "HOL-Library.Char_ord" "HOL-Library.List_Lexorder" "HOL-Library.Log_Nat" "HOL-Library.Multiset"
begin

section \<open>yggdrasilctl: the admin-socket client of cmd/yggdrasilctl/main.go\<close>

text \<open>
  The theory embeds \<^verbatim>\<open>main.go\<close>: the loop of \<^verbatim>\<open>run\<close> that builds the request map
  from the command-line arguments, the handling of the decoded response, the dispatcher
  \<^verbatim>\<open>handleAll\<close> and the formatters. A Go \<^verbatim>\<open>string\<close> is a byte string, here a
  \<^typ>\<open>string\<close>. The model is of a 64-bit platform (\<^verbatim>\<open>int\<close> and \<^verbatim>\<open>uint\<close> have 64 bits).
\<close>

subsection \<open>Strings: the functions of package strings and strconv that run uses\<close>

definition nl :: string where
  "nl = [CHR 0x0A]"

text \<open>\<^verbatim>\<open>strings.HasPrefix(a, "-")\<close>.\<close>

definition HasPrefix :: "string \<Rightarrow> string \<Rightarrow> bool" where
  "HasPrefix s p = (take (length p) s = p)"

text \<open>\<^verbatim>\<open>strings.Split(a, "=")\<close> for a one-byte separator: always at least one token.\<close>

fun Split :: "char \<Rightarrow> string \<Rightarrow> string list" where
  "Split sep [] = [[]]"
| "Split sep (c # cs) =
     (if c = sep then [] # Split sep cs
      else (case Split sep cs of t # ts \<Rightarrow> (c # t) # ts | [] \<Rightarrow> [[c]]))"

text \<open>\<^verbatim>\<open>strings.Join(tokens, "=")\<close>.\<close>

fun Join :: "string list \<Rightarrow> string \<Rightarrow> string" where
  "Join [] sep = []"
| "Join [t] sep = t"
| "Join (t # ts) sep = t @ sep @ Join ts sep"

definition isDigit :: "char \<Rightarrow> bool" where
  "isDigit c = (48 \<le> (of_char c :: nat) \<and> (of_char c :: nat) \<le> 57)"

definition digitVal :: "char \<Rightarrow> nat" where
  "digitVal c = (of_char c :: nat) - 48"

text \<open>The value of a string of decimal digits, most significant digit first.\<close>

definition decimal :: "string \<Rightarrow> nat" where
  "decimal ds = foldl (\<lambda>n c. 10 * n + digitVal c) 0 ds"

text \<open>
  \<^verbatim>\<open>strconv.Atoi\<close>: an optional sign, then one or more decimal digits, and the value
  must fit the 64-bit \<^verbatim>\<open>int\<close>; anything else is an error (\<open>None\<close>).
\<close>

definition Atoi :: "string \<Rightarrow> int option" where
  "Atoi s =
     (let neg = (s \<noteq> [] \<and> hd s = CHR ''-'');
          ds = (if s \<noteq> [] \<and> (hd s = CHR ''-'' \<or> hd s = CHR ''+'') then tl s else s);
          i = (if neg then - int (decimal ds) else int (decimal ds))
      in if ds = [] \<or> \<not> list_all isDigit ds then None
         else if - (2 ^ 63) \<le> i \<and> i < 2 ^ 63 then Some i
         else None)"

text \<open>
  \<^verbatim>\<open>strings.ToLower\<close>, as far as a comparison of its result with an ASCII literal can
  tell: the letters A to Z are lowered, and so are the only two runes outside ASCII whose
  lower case is an ASCII letter, U+0130 (bytes C4 B0, to \<open>i\<close>) and U+212A (bytes E2 84 AA,
  to \<open>k\<close>). Every other byte is kept; the code uses the result in comparisons with
  ASCII literals only.
\<close>

definition lowerByte :: "char \<Rightarrow> char" where
  "lowerByte c =
     (if 65 \<le> (of_char c :: nat) \<and> (of_char c :: nat) \<le> 90
      then char_of ((of_char c :: nat) + 32) else c)"

fun ToLower :: "string \<Rightarrow> string" where
  "ToLower (a # b # c # cs) =
     (if a = CHR 0xE2 \<and> b = CHR 0x84 \<and> c = CHR 0xAA then CHR ''k'' # ToLower cs
      else if a = CHR 0xC4 \<and> b = CHR 0xB0 then CHR ''i'' # ToLower (c # cs)
      else lowerByte a # ToLower (b # c # cs))"
| "ToLower [a, b] =
     (if a = CHR 0xC4 \<and> b = CHR 0xB0 then [CHR ''i''] else [lowerByte a, lowerByte b])"
| "ToLower [a] = [lowerByte a]"
| "ToLower [] = []"

text \<open>Decimal digits of a natural number, as \<^verbatim>\<open>%d\<close> prints an unsigned value.\<close>

fun showNat :: "nat \<Rightarrow> string" where
  "showNat n =
     (if n < 10 then [''0123456789'' ! n]
      else showNat (n div 10) @ [''0123456789'' ! (n mod 10)])"

declare showNat.simps [simp del]

definition showInt :: "int \<Rightarrow> string" where
  "showInt i = (if i < 0 then CHR ''-'' # showNat (nat (- i)) else showNat (nat i))"

text \<open>\<^verbatim>\<open>%02d\<close> of an unsigned value: at least two digits, padded with zeros on the left.\<close>

definition pad02 :: "nat \<Rightarrow> string" where
  "pad02 n = replicate (2 - length (showNat n)) (CHR ''0'') @ showNat n"

subsection \<open>The request map\<close>

text \<open>
  \<^verbatim>\<open>send\<close> is a \<^verbatim>\<open>map[string]interface{}\<close>; the loop stores a \<^verbatim>\<open>bool\<close>, an \<^verbatim>\<open>int\<close>
  or a \<^verbatim>\<open>string\<close> in it.
\<close>

datatype goval = GoBool bool | GoInt int | GoString string

type_synonym admin_info = "string \<rightharpoonup> goval"

text \<open>\<^verbatim>\<open>%v\<close> of a value stored in \<^verbatim>\<open>send\<close>, for the log line.\<close>

fun showGoval :: "goval \<Rightarrow> string" where
  "showGoval (GoBool b) = (if b then ''true'' else ''false'')"
| "showGoval (GoInt i) = showInt i"
| "showGoval (GoString s) = s"

text \<open>
  The state of the loop at lines 66 to 97: the map \<^verbatim>\<open>send\<close> and the messages written
  to \<^verbatim>\<open>logger\<close> (each without the date and time that \<^verbatim>\<open>log.Flags()\<close> puts before it).
\<close>

record builder =
  send :: admin_info
  logged :: "string list"

text \<open>The body of the loop for the argument \<open>a\<close> at index \<open>c\<close>.\<close>

definition argStep :: "nat \<Rightarrow> string \<Rightarrow> builder \<Rightarrow> builder" where
  "argStep c a b =
     (if c = 0 then
        (if HasPrefix a ''-''
         then b\<lparr>logged := logged b @
                [''Ignoring flag '' @ a @ '' as it should be specified before other parameters'']\<rparr>
         else b\<lparr>send := (send b)(''request'' \<mapsto> GoString a),
                logged := logged b @ [''Sending request: '' @ a]\<rparr>)
      else
        (let tokens = Split (CHR ''='') a in
         if length tokens = 1 then b\<lparr>send := (send b)(tokens ! 0 \<mapsto> GoBool True)\<rparr>
         else if length tokens > 2
           then b\<lparr>send := (send b)(tokens ! 0 \<mapsto> GoString (Join (tl tokens) ''=''))\<rparr>
         else if length tokens = 2 then
           (case Atoi (tokens ! 1) of
              Some i \<Rightarrow>
                b\<lparr>send := (send b)(tokens ! 0 \<mapsto> GoInt i),
                  logged := logged b @
                    [''Sending parameter '' @ tokens ! 0 @ '': '' @ showInt i]\<rparr>
            | None \<Rightarrow>
                (let v = (if ToLower (tokens ! 1) = ''true'' then GoBool True
                          else if ToLower (tokens ! 1) = ''false'' then GoBool False
                          else GoString (tokens ! 1))
                 in b\<lparr>send := (send b)(tokens ! 0 \<mapsto> v),
                      logged := logged b @
                        [''Sending parameter '' @ tokens ! 0 @ '': '' @ showGoval v]\<rparr>))
         else b))"

text \<open>\<^verbatim>\<open>for c, a := range cmdLineEnv.args\<close>, from index \<open>c\<close> on.\<close>

fun argLoop :: "nat \<Rightarrow> string list \<Rightarrow> builder \<Rightarrow> builder" where
  "argLoop c [] b = b"
| "argLoop c (a # as) b = argLoop (Suc c) as (argStep c a b)"

definition buildRequest :: "string list \<Rightarrow> builder" where
  "buildRequest as = argLoop 0 as \<lparr>send = Map.empty, logged = []\<rparr>"

subsection \<open>Decoded values\<close>

text \<open>
  What \<^verbatim>\<open>json.Decoder.Decode\<close> stores in an \<^verbatim>\<open>interface{}\<close>: \<^verbatim>\<open>nil\<close>, a \<^verbatim>\<open>bool\<close>,
  a \<^verbatim>\<open>float64\<close>, a \<^verbatim>\<open>string\<close>, a \<^verbatim>\<open>[]interface{}\<close> or a
  \<^verbatim>\<open>map[string]interface{}\<close>. A \<^verbatim>\<open>float64\<close> is given by its value, a rational number
  (JSON has no infinity and no NaN; the negative zero is taken for zero). A Go map has no
  order: the list of a \<open>Record\<close> is the order in which \<^verbatim>\<open>range\<close> visits the map, which
  is any order the runtime chooses, and the theorems hold for every order.
\<close>

datatype val =
    Null
  | Bool bool
  | Number rat
  | Text string
  | Sequence "val list"
  | Record "(string \<times> val) list"

text \<open>A panic of the Go runtime, or \<^verbatim>\<open>panic(err)\<close> with the text of the error.\<close>

datatype panic = InterfaceConversion | NilDereference | SliceBounds | ErrorValue string

text \<open>
  A piece of code that prints and then returns or panics: the text written to the
  standard output, and the result. What was printed before a panic stays printed.
\<close>

type_synonym 'a io = "string \<times> (panic + 'a)"

definition emit :: "string \<Rightarrow> unit io" where
  "emit s = (s, Inr ())"

definition raise :: "panic \<Rightarrow> unit io" where
  "raise p = ([], Inl p)"

fun andThen :: "unit io \<Rightarrow> unit io \<Rightarrow> unit io" where
  "andThen (out1, Inl p) m = (out1, Inl p)"
| "andThen (out1, Inr u) (out2, r) = (out1 @ out2, r)"

fun forEach :: "('a \<Rightarrow> unit io) \<Rightarrow> 'a list \<Rightarrow> unit io" where
  "forEach f [] = emit []"
| "forEach f (x # xs) = andThen (f x) (forEach f xs)"

text \<open>
  What the code takes from the Go library and runtime without this repository fixing it:
  \<^item> \<open>fmtFloat\<close>: \<^verbatim>\<open>%v\<close> of a \<^verbatim>\<open>float64\<close>;
  \<^item> \<open>uintOutOfRange\<close>: \<^verbatim>\<open>uint(f)\<close> where the truncated \<open>f\<close> is no 64-bit unsigned
    value (the language leaves the result to the implementation);
  \<^item> \<open>RuneCountInString\<close>: the number of runes, by which \<^verbatim>\<open>%-Ns\<close> pads;
  \<^item> \<open>MarshalIndent\<close>: \<^verbatim>\<open>json.MarshalIndent(v, "", "  ")\<close>, \<open>None\<close> for an error;
  \<^item> \<open>panicText\<close>: how \<^verbatim>\<open>Println\<close> shows a recovered panic value;
  \<^item> \<open>logStamp\<close>: the date and time before the \<open>i\<close>-th line of the log;
  \<^item> \<open>rangeAgain\<close>: the order of a second \<^verbatim>\<open>range\<close> over a map already visited;
  \<^item> \<open>queuePercent\<close>: \<^verbatim>\<open>uint((100 / maximumqueuesize) * queuesize)\<close> of line 352, a
    \<^verbatim>\<open>float64\<close> quotient and product that may be infinite or no number;
  \<^item> \<open>aggregated\<close>: the lines that the loop of lines 362 to 366 prints, from
    \<^verbatim>\<open>maximumqueuesize\<close> and the port, the size and the packets of every queue in
    turn: \<^verbatim>\<open>float64\<close> sums by port, visited in the order \<^verbatim>\<open>range\<close> chooses.
\<close>

record platform =
  fmtFloat :: "rat \<Rightarrow> string"
  uintOutOfRange :: "rat \<Rightarrow> nat"
  RuneCountInString :: "string \<Rightarrow> nat"
  MarshalIndent :: "val \<Rightarrow> string option"
  panicText :: "panic \<Rightarrow> string"
  logStamp :: "nat \<Rightarrow> string"
  rangeAgain :: "(string \<times> val) list \<Rightarrow> (string \<times> val) list"
  queuePercent :: "rat \<Rightarrow> rat \<Rightarrow> nat"
  aggregated :: "rat \<Rightarrow> (rat \<times> rat \<times> rat) list \<Rightarrow> string"

text \<open>\<^verbatim>\<open>m[k]\<close> on a \<^verbatim>\<open>map[string]interface{}\<close>: \<^verbatim>\<open>nil\<close> for a missing key.\<close>

definition index :: "(string \<times> val) list \<Rightarrow> string \<Rightarrow> val" where
  "index m k = (case map_of m k of None \<Rightarrow> Null | Some v \<Rightarrow> v)"

text \<open>The type assertions with one result, which panic on another dynamic type.\<close>

definition assertRecord :: "val \<Rightarrow> panic + (string \<times> val) list" where
  "assertRecord v = (case v of Record r \<Rightarrow> Inr r | _ \<Rightarrow> Inl InterfaceConversion)"

definition assertSequence :: "val \<Rightarrow> panic + val list" where
  "assertSequence v = (case v of Sequence vs \<Rightarrow> Inr vs | _ \<Rightarrow> Inl InterfaceConversion)"

definition assertNumber :: "val \<Rightarrow> panic + rat" where
  "assertNumber v = (case v of Number f \<Rightarrow> Inr f | _ \<Rightarrow> Inl InterfaceConversion)"

definition assertText :: "val \<Rightarrow> panic + string" where
  "assertText v = (case v of Text s \<Rightarrow> Inr s | _ \<Rightarrow> Inl InterfaceConversion)"

definition showBool :: "bool \<Rightarrow> string" where
  "showBool b = (if b then ''true'' else ''false'')"

text \<open>
  \<^verbatim>\<open>fmt.Sprint\<close> of one decoded value (\<^verbatim>\<open>%v\<close>); a map is printed with its keys sorted.
\<close>

fun Sprint :: "platform \<Rightarrow> val \<Rightarrow> string" where
  "Sprint P Null = ''<nil>''"
| "Sprint P (Bool b) = showBool b"
| "Sprint P (Number f) = fmtFloat P f"
| "Sprint P (Text s) = s"
| "Sprint P (Sequence vs) = ''['' @ Join (map (Sprint P) vs) '' '' @ '']''"
| "Sprint P (Record kvs) =
     ''map['' @
     Join (map snd (sort_key fst (map (\<lambda>kv. (fst kv, fst kv @ '':'' @ Sprint P (snd kv))) kvs)))
       '' '' @ '']''"

text \<open>\<^verbatim>\<open>fmt.Println\<close> of operands already formatted: a space between them, a newline.\<close>

definition Println :: "string list \<Rightarrow> string" where
  "Println ops = Join ops '' '' @ nl"

text \<open>\<^verbatim>\<open>fmt.Printf("%-"+fmt.Sprint(w)+"s  ", s)\<close>: \<open>s\<close> padded on the right to \<open>w\<close> runes.\<close>

definition Printf_cell :: "platform \<Rightarrow> nat \<Rightarrow> string \<Rightarrow> string" where
  "Printf_cell P w s = s @ replicate (w - RuneCountInString P s) (CHR '' '') @ ''  ''"

subsection \<open>float64 arithmetic of the table renderer\<close>

text \<open>
  \<open>ilog2 q\<close> is the binary exponent of a positive rational: \<open>2 powi ilog2 q \<le> q\<close> and
  \<open>q < 2 powi (ilog2 q + 1)\<close>.
\<close>

definition ilog2 :: "rat \<Rightarrow> int" where
  "ilog2 q =
     (let k = bitlen (fst (quotient_of q)) - bitlen (snd (quotient_of q))
      in if 2 powi k \<le> q then k else k - 1)"

text \<open>Rounding to the nearest integer, a tie to the even one.\<close>

definition roundEven :: "rat \<Rightarrow> int" where
  "roundEven y =
     (let f = \<lfloor>y\<rfloor>; r = y - of_int f
      in if r < 1 / 2 then f
         else if 1 / 2 < r then f + 1
         else if even f then f else f + 1)"

text \<open>
  The \<^verbatim>\<open>float64\<close> nearest to a rational (IEEE 754 binary64, round to nearest, ties to
  even): 53 bits of precision, the least exponent of a unit in the last place is -1074.
  The quotients the code forms are far below the overflow threshold, which is left out.
\<close>

definition round64 :: "rat \<Rightarrow> rat" where
  "round64 q =
     (if q = 0 then 0
      else (let e = max (ilog2 \<bar>q\<bar> - 52) (- 1074)
            in of_int (roundEven (q / 2 powi e)) * 2 powi e))"

text \<open>The rationals that are a \<^verbatim>\<open>float64\<close>.\<close>

definition is_float64 :: "rat \<Rightarrow> bool" where
  "is_float64 q \<longleftrightarrow>
     (\<exists>m e. q = of_int m * 2 powi e \<and> \<bar>m\<bar> < 2 ^ 53 \<and> - 1074 \<le> e \<and> e \<le> 971)"

text \<open>\<^verbatim>\<open>x / y\<close> on \<^verbatim>\<open>float64\<close>, for a divisor that is not zero.\<close>

definition fdiv :: "rat \<Rightarrow> rat \<Rightarrow> rat" where
  "fdiv x y = round64 (x / y)"

definition trunc :: "rat \<Rightarrow> int" where
  "trunc f = (if 0 \<le> f then \<lfloor>f\<rfloor> else \<lceil>f\<rceil>)"

text \<open>\<^verbatim>\<open>uint(f)\<close>: the fraction is discarded.\<close>

definition toUint :: "platform \<Rightarrow> rat \<Rightarrow> nat" where
  "toUint P f =
     (if 0 \<le> trunc f \<and> trunc f < 2 ^ 64 then nat (trunc f) else uintOutOfRange P f)"

text \<open>Lines 262 to 265: the cell of an \<^verbatim>\<open>uptime\<close> or \<^verbatim>\<open>last_seen\<close> column.\<close>

definition formatTime :: "platform \<Rightarrow> rat \<Rightarrow> string" where
  "formatTime P f =
     (let seconds = toUint P f mod 60;
          minutes = toUint P (fdiv f 60) mod 60;
          hours = toUint P (fdiv (fdiv f 60) 60)
      in pad02 hours @ '':'' @ pad02 minutes @ '':'' @ pad02 seconds)"

subsection \<open>handleVariousInfo\<close>

text \<open>The three variables declared before the loop over the categories (lines 214 to 216).\<close>

record table =
  maxWidths :: "string \<Rightarrow> nat"
  keyOrder :: "string list"
  keysOrdered :: bool

definition hiddenKeys :: "string list" where
  "hiddenKeys = [''box_pub_key'', ''box_sig_key'', ''nodeinfo'', ''was_mtu_fixed'']"

text \<open>Lines 220 to 231: the columns, taken from the field names of one record.\<close>

definition discover :: "bool \<Rightarrow> (string \<times> val) list \<Rightarrow> table \<Rightarrow> table" where
  "discover verbose flds t =
     (if \<not> keysOrdered t
      then t\<lparr>keyOrder :=
               sort (keyOrder t @ filter (\<lambda>k. verbose \<or> k \<notin> set hiddenKeys) (map fst flds)),
             keysOrdered := True\<rparr>
      else t)"

text \<open>Lines 233 to 241: one field \<open>(k, v)\<close> of the record with key \<open>slk\<close>.\<close>

definition widen :: "platform \<Rightarrow> string \<Rightarrow> (string \<Rightarrow> nat) \<Rightarrow> string \<times> val \<Rightarrow> (string \<Rightarrow> nat)" where
  "widen P slk mw kv =
     (let mw1 = (if length slk > mw ''key'' then mw(''key'' := length slk) else mw);
          k = fst kv;
          l = length (Sprint P (snd kv))
      in if l > mw1 k
         then (let mw2 = mw1(k := l) in if mw2 k < length k then mw2(k := length k) else mw2)
         else mw1)"

text \<open>Lines 219 to 243 for one record of the category.\<close>

definition measureRecord :: "platform \<Rightarrow> bool \<Rightarrow> string \<times> val \<Rightarrow> table \<Rightarrow> panic + table" where
  "measureRecord P verbose r t =
     (case assertRecord (snd r) of
        Inl p \<Rightarrow> Inl p
      | Inr flds \<Rightarrow>
          (let t1 = discover verbose flds t
           in Inr (t1\<lparr>maxWidths := foldl (widen P (fst r)) (maxWidths t1) flds\<rparr>)))"

fun measureLoop :: "platform \<Rightarrow> bool \<Rightarrow> (string \<times> val) list \<Rightarrow> table \<Rightarrow> panic + table" where
  "measureLoop P verbose [] t = Inr t"
| "measureLoop P verbose (r # rs) t =
     (case measureRecord P verbose r t of
        Inl p \<Rightarrow> Inl p
      | Inr t1 \<Rightarrow> measureLoop P verbose rs t1)"

text \<open>Lines 245 to 251.\<close>

definition headerLine :: "platform \<Rightarrow> table \<Rightarrow> string" where
  "headerLine P t =
     (if length (keyOrder t) > 0
      then Printf_cell P (maxWidths t ''key'') [] @
           concat (map (\<lambda>v. Printf_cell P (maxWidths t v) v) (keyOrder t)) @ nl
      else [])"

text \<open>Lines 256 to 269: the cell of column \<open>k\<close> of the record \<open>slv\<close>.\<close>

definition formatCell :: "platform \<Rightarrow> table \<Rightarrow> val \<Rightarrow> string \<Rightarrow> unit io" where
  "formatCell P t slv k =
     (case assertRecord slv of
        Inl p \<Rightarrow> raise p
      | Inr flds \<Rightarrow>
          (let preformatted = index flds k in
           if k = ''bytes_sent'' \<or> k = ''bytes_recvd'' then
             (case assertNumber preformatted of
                Inl p \<Rightarrow> raise p
              | Inr f \<Rightarrow> emit (Printf_cell P (maxWidths t k) (showNat (toUint P f))))
           else if k = ''uptime'' \<or> k = ''last_seen'' then
             (case assertNumber preformatted of
                Inl p \<Rightarrow> raise p
              | Inr f \<Rightarrow> emit (Printf_cell P (maxWidths t k) (formatTime P f)))
           else emit (Printf_cell P (maxWidths t k) (Sprint P preformatted))))"

text \<open>Lines 253 to 272 for one record.\<close>

definition rowLine :: "platform \<Rightarrow> table \<Rightarrow> string \<times> val \<Rightarrow> unit io" where
  "rowLine P t r =
     andThen (emit (Printf_cell P (maxWidths t ''key'') (fst r)))
       (andThen (forEach (formatCell P t (snd r)) (keyOrder t)) (emit nl))"

text \<open>
  The second \<^verbatim>\<open>range\<close> over the records of a category (line 253) visits them in an order
  of its own, some permutation of the first.
\<close>

definition secondRange :: "platform \<Rightarrow> (string \<times> val) list \<Rightarrow> (string \<times> val) list" where
  "secondRange P recs =
     (if mset (rangeAgain P recs) = mset recs then rangeAgain P recs else recs)"

text \<open>The body of the loop over the categories (lines 218 to 273) for the value \<open>tlv\<close>.\<close>

definition category :: "platform \<Rightarrow> bool \<Rightarrow> val \<Rightarrow> table \<Rightarrow> string \<times> (panic + table)" where
  "category P verbose tlv t =
     (case assertRecord tlv of
        Inl p \<Rightarrow> ([], Inl p)
      | Inr recs \<Rightarrow>
          (case measureLoop P verbose recs t of
             Inl p \<Rightarrow> ([], Inl p)
           | Inr t1 \<Rightarrow>
               (case andThen (emit (headerLine P t1)) (forEach (rowLine P t1) (secondRange P recs)) of
                  (out, Inl p) \<Rightarrow> (out, Inl p)
                | (out, Inr u) \<Rightarrow> (out, Inr t1))))"

fun categories :: "platform \<Rightarrow> bool \<Rightarrow> (string \<times> val) list \<Rightarrow> table \<Rightarrow> string \<times> (panic + table)" where
  "categories P verbose [] t = ([], Inr t)"
| "categories P verbose (c # cs) t =
     (case category P verbose (snd c) t of
        (out, Inl p) \<Rightarrow> (out, Inl p)
      | (out, Inr t1) \<Rightarrow>
          (case categories P verbose cs t1 of (out2, r) \<Rightarrow> (out @ out2, r)))"

definition emptyTable :: table where
  "emptyTable = \<lparr>maxWidths = (\<lambda>k. 0), keyOrder = [], keysOrdered = False\<rparr>"

definition handleVariousInfo :: "platform \<Rightarrow> (string \<times> val) list \<Rightarrow> bool \<Rightarrow> unit io" where
  "handleVariousInfo P res verbose =
     (case categories P verbose res emptyTable of
        (out, Inl p) \<Rightarrow> (out, Inl p)
      | (out, Inr t) \<Rightarrow> (out, Inr ()))"

subsection \<open>The other formatters\<close>

definition handleDot :: "platform \<Rightarrow> (string \<times> val) list \<Rightarrow> unit io" where
  "handleDot P res = emit (Println [Sprint P (index res ''dot'')])"

text \<open>
  A line printed only when a type assertion with two results succeeds:
  \<^verbatim>\<open>if s, ok := m["f"].(string); ok { fmt.Println("Label:", s) }\<close>.
\<close>

definition textLine :: "string \<Rightarrow> val \<Rightarrow> string" where
  "textLine label v = (case v of Text s \<Rightarrow> Println [label, s] | _ \<Rightarrow> [])"

definition knownLine :: "string \<Rightarrow> val \<Rightarrow> string" where
  "knownLine label v =
     (case v of Text s \<Rightarrow> (if s \<noteq> ''unknown'' then Println [label, s] else []) | _ \<Rightarrow> [])"

text \<open>The body of the loop of \<^verbatim>\<open>handleGetAndSetTunTap\<close> (lines 278 to 284) for the entry \<open>(k, v)\<close>.\<close>

definition tunTapEntry :: "platform \<Rightarrow> string \<times> val \<Rightarrow> unit io" where
  "tunTapEntry P kv =
     andThen (emit (Println [''Interface name:'', fst kv]))
       (case assertRecord (snd kv) of
          Inl p \<Rightarrow> raise p
        | Inr m \<Rightarrow>
            emit ((case index m ''mtu'' of
                     Number mtu \<Rightarrow> Println [''Interface MTU:'', fmtFloat P mtu] | _ \<Rightarrow> []) @
                  (case index m ''tap_mode'' of
                     Bool tap_mode \<Rightarrow> Println [''TAP mode:'', showBool tap_mode] | _ \<Rightarrow> [])))"

definition handleGetAndSetTunTap :: "platform \<Rightarrow> (string \<times> val) list \<Rightarrow> unit io" where
  "handleGetAndSetTunTap P res = forEach (tunTapEntry P) res"

text \<open>The body of the loop of \<^verbatim>\<open>handleGetSelf\<close> (lines 290 to 316) for the entry \<open>(k, v)\<close>.\<close>

definition selfEntry :: "bool \<Rightarrow> string \<times> val \<Rightarrow> unit io" where
  "selfEntry verbose kv =
     (case assertRecord (snd kv) of
        Inl p \<Rightarrow> raise p
      | Inr m \<Rightarrow>
          emit (knownLine ''Build name:'' (index m ''build_name'') @
                knownLine ''Build version:'' (index m ''build_version'') @
                Println [''IPv6 address:'', fst kv] @
                textLine ''IPv6 subnet:'' (index m ''subnet'') @
                textLine ''Public key:'' (index m ''key'') @
                textLine ''Coords:'' (index m ''coords'') @
                (if verbose
                 then textLine ''Node ID:'' (index m ''node_id'') @
                      textLine ''Public encryption key:'' (index m ''box_pub_key'') @
                      textLine ''Public signing key:'' (index m ''box_sig_key'')
                 else [])))"

definition handleGetSelf :: "platform \<Rightarrow> (string \<times> val) list \<Rightarrow> bool \<Rightarrow> unit io" where
  "handleGetSelf P res verbose =
     (case assertRecord (index res ''self'') of
        Inl p \<Rightarrow> raise p
      | Inr selfs \<Rightarrow> forEach (selfEntry verbose) selfs)"

text \<open>
  \<^verbatim>\<open>handleGetSwitchQueues\<close> (lines 320 to 368). A counter read with a checked
  assertion, printed by \<^verbatim>\<open>Printf("Label: %d unit", uint(f))\<close> on a line of its own:
\<close>

definition countLine :: "platform \<Rightarrow> string \<Rightarrow> string \<Rightarrow> val \<Rightarrow> string" where
  "countLine P label unit v =
     (case v of Number f \<Rightarrow> label @ showNat (toUint P f) @ unit @ nl | _ \<Rightarrow> [])"

text \<open>\<^verbatim>\<open>%v\<close> of a \<^verbatim>\<open>[]byte\<close>: the bytes as numbers.\<close>

definition showBytes :: "string \<Rightarrow> string" where
  "showBytes s = ''['' @ Join (map (\<lambda>c. showNat (of_char c)) s) '' '' @ '']''"

text \<open>
  The body of the loop over the queues (lines 346 to 357): four unchecked assertions on
  the entry, then its line. The three maps are updated between them.
\<close>

definition queueLine :: "platform \<Rightarrow> rat \<Rightarrow> val \<Rightarrow> unit io" where
  "queueLine P maximumqueuesize v =
     (case assertRecord v of
        Inl p \<Rightarrow> raise p
      | Inr q \<Rightarrow>
     (case assertNumber (index q ''queue_port'') of
        Inl p \<Rightarrow> raise p
      | Inr queueport \<Rightarrow>
     (case assertNumber (index q ''queue_size'') of
        Inl p \<Rightarrow> raise p
      | Inr queuesize \<Rightarrow>
     (case assertNumber (index q ''queue_packets'') of
        Inl p \<Rightarrow> raise p
      | Inr queuepackets \<Rightarrow>
     (case assertText (index q ''queue_id'') of
        Inl p \<Rightarrow> raise p
      | Inr queueid \<Rightarrow>
          emit (''- Switch port '' @ showNat (toUint P queueport) @
                '', Stream ID: '' @ showBytes queueid @
                '', size: '' @ showNat (toUint P queuesize) @
                '' bytes ('' @ showNat (queuePercent P maximumqueuesize queuesize) @
                ''% full), '' @ showNat (toUint P queuepackets) @ '' packets'' @ nl))))))"

text \<open>
  What the loop has added to the three maps for one queue: its port, size and packets.
  It is read only after the loop has gone through every queue without a panic.
\<close>

definition queueStat :: "val \<Rightarrow> rat \<times> rat \<times> rat" where
  "queueStat v =
     (case v of
        Record q \<Rightarrow>
          (case (index q ''queue_port'', index q ''queue_size'', index q ''queue_packets'') of
             (Number queueport, Number queuesize, Number queuepackets) \<Rightarrow>
               (queueport, queuesize, queuepackets)
           | _ \<Rightarrow> (0, 0, 0))
      | _ \<Rightarrow> (0, 0, 0))"

text \<open>
  Lines 342 to 367 for the value \<open>qv\<close> of \<^verbatim>\<open>v["queues"]\<close>. The maps
  \<^verbatim>\<open>portqueuesize\<close> and \<^verbatim>\<open>portqueuepackets\<close> have an entry exactly when the loop has
  gone through at least one queue.
\<close>

definition queueSection :: "platform \<Rightarrow> rat \<Rightarrow> val \<Rightarrow> unit io" where
  "queueSection P maximumqueuesize qv =
     (case qv of
        Sequence queues \<Rightarrow>
          (if length queues \<noteq> 0 then
             andThen (emit (Println [''Active queues:'']))
               (andThen (forEach (queueLine P maximumqueuesize) queues)
                  (emit (Println [''Aggregated statistics by switchport:''] @
                         aggregated P maximumqueuesize (map queueStat queues))))
           else emit [])
      | _ \<Rightarrow> emit [])"

definition handleGetSwitchQueues :: "platform \<Rightarrow> (string \<times> val) list \<Rightarrow> unit io" where
  "handleGetSwitchQueues P res =
     (case assertRecord (index res ''switchqueues'') of
        Inl p \<Rightarrow> raise p
      | Inr v \<Rightarrow>
          (let maximumqueuesize =
                 (case index v ''maximum_queues_size'' of Number m \<Rightarrow> m | _ \<Rightarrow> 4194304)
           in andThen
                (emit (countLine P ''Active queue count: '' '' queues'' (index v ''queues_count'') @
                       countLine P ''Active queue size: '' '' bytes'' (index v ''queues_size'') @
                       countLine P ''Highest queue count: '' '' queues''
                         (index v ''highest_queues_count'') @
                       countLine P ''Highest queue size: '' '' bytes''
                         (index v ''highest_queues_size'') @
                       countLine P ''Maximum queue size: '' '' bytes''
                         (index v ''maximum_queues_size'')))
                (queueSection P maximumqueuesize (index v ''queues''))))"

text \<open>One of the four blocks of \<^verbatim>\<open>handleAddsAndRemoves\<close>.\<close>

definition listed :: "platform \<Rightarrow> (string \<times> val) list \<Rightarrow> string \<Rightarrow> string \<Rightarrow> unit io" where
  "listed P res key label =
     (case map_of res key of
        None \<Rightarrow> emit []
      | Some x \<Rightarrow>
          (case assertSequence x of
             Inl p \<Rightarrow> raise p
           | Inr vs \<Rightarrow> emit (concat (map (\<lambda>v. Println [label, Sprint P v]) vs))))"

definition handleAddsAndRemoves :: "platform \<Rightarrow> (string \<times> val) list \<Rightarrow> unit io" where
  "handleAddsAndRemoves P res =
     andThen (listed P res ''added'' ''Added:'')
       (andThen (listed P res ''not_added'' ''Not added:'')
          (andThen (listed P res ''removed'' ''Removed:'')
             (listed P res ''not_removed'' ''Not removed:'')))"

text \<open>
  The common shape of \<^verbatim>\<open>handleGetAllowedEncryptionPublicKeys\<close>,
  \<^verbatim>\<open>handleGetMulticastInterfaces\<close> and \<^verbatim>\<open>handleGetSourceSubnets\<close>.
\<close>

definition bulleted :: "platform \<Rightarrow> (string \<times> val) list \<Rightarrow> string \<Rightarrow> string \<Rightarrow> string \<Rightarrow> unit io" where
  "bulleted P res key none heading =
     (case map_of res key of
        None \<Rightarrow> emit (Println [none])
      | Some Null \<Rightarrow> emit (Println [none])
      | Some x \<Rightarrow>
          andThen (emit (Println [heading]))
            (case assertSequence x of
               Inl p \<Rightarrow> raise p
             | Inr vs \<Rightarrow> emit (concat (map (\<lambda>v. Println [''-'', Sprint P v]) vs))))"

definition handleGetAllowedEncryptionPublicKeys :: "platform \<Rightarrow> (string \<times> val) list \<Rightarrow> unit io" where
  "handleGetAllowedEncryptionPublicKeys P res =
     bulleted P res ''allowed_box_pubs'' ''All connections are allowed''
       ''Connections are allowed only from the following public box keys:''"

definition handleGetMulticastInterfaces :: "platform \<Rightarrow> (string \<times> val) list \<Rightarrow> unit io" where
  "handleGetMulticastInterfaces P res =
     bulleted P res ''multicast_interfaces'' ''No multicast interfaces found''
       ''Multicast peer discovery is active on:''"

definition handleGetSourceSubnets :: "platform \<Rightarrow> (string \<times> val) list \<Rightarrow> unit io" where
  "handleGetSourceSubnets P res =
     bulleted P res ''source_subnets'' ''No source subnets found'' ''Source subnets:''"

definition handleGetRoutes :: "platform \<Rightarrow> (string \<times> val) list \<Rightarrow> unit io" where
  "handleGetRoutes P res =
     (case index res ''routes'' of
        Record routes \<Rightarrow>
          (if length routes = 0 then emit (Println [''No routes found''])
           else emit (Println [''Routes:''] @
                      concat (map (\<lambda>kv. case snd kv of
                                           Text pv \<Rightarrow> Println [''-'', fst kv, '' via '', pv]
                                         | _ \<Rightarrow> []) routes)))
      | _ \<Rightarrow> emit (Println [''No routes found'']))"

definition handleGetTunnelRouting :: "platform \<Rightarrow> (string \<times> val) list \<Rightarrow> unit io" where
  "handleGetTunnelRouting P res =
     (case index res ''enabled'' of
        Bool enabled \<Rightarrow>
          (if \<not> enabled then emit (Println [''Tunnel routing is disabled''])
           else emit (Println [''Tunnel routing is enabled'']))
      | _ \<Rightarrow> emit (Println [''Tunnel routing is disabled'']))"

subsection \<open>handleAll\<close>

definition handleAll :: "platform \<Rightarrow> (string \<times> val) list \<Rightarrow> bool \<Rightarrow> unit io" where
  "handleAll P recv verbose =
     (case assertRecord (index recv ''request'') of
        Inl p \<Rightarrow> raise p
      | Inr req \<Rightarrow>
     (case assertRecord (index recv ''response'') of
        Inl p \<Rightarrow> raise p
      | Inr res \<Rightarrow>
     (case assertText (index req ''request'') of
        Inl p \<Rightarrow> raise p
      | Inr name \<Rightarrow>
          (let cmd = ToLower name in
           if cmd = ''dot'' then handleDot P res
           else if cmd \<in> set [''list'', ''getpeers'', ''getswitchpeers'', ''getdht'',
                              ''getsessions'', ''dhtping'']
             then handleVariousInfo P res verbose
           else if cmd \<in> set [''gettuntap'', ''settuntap''] then handleGetAndSetTunTap P res
           else if cmd = ''getself'' then handleGetSelf P res verbose
           else if cmd = ''getswitchqueues'' then handleGetSwitchQueues P res
           else if cmd \<in> set [''addpeer'', ''removepeer'', ''addallowedencryptionpublickey'',
                              ''removeallowedencryptionpublickey'', ''addsourcesubnet'',
                              ''addroute'', ''removesourcesubnet'', ''removeroute'']
             then handleAddsAndRemoves P res
           else if cmd = ''getallowedencryptionpublickeys''
             then handleGetAllowedEncryptionPublicKeys P res
           else if cmd = ''getmulticastinterfaces'' then handleGetMulticastInterfaces P res
           else if cmd = ''getsourcesubnets'' then handleGetSourceSubnets P res
           else if cmd = ''getroutes'' then handleGetRoutes P res
           else if cmd = ''settunnelrouting'' \<or> cmd = ''gettunnelrouting''
             then handleGetTunnelRouting P res
           else (case MarshalIndent P (index recv ''response'') of
                   Some json \<Rightarrow> emit (Println [json])
                 | None \<Rightarrow> emit [])))))"

subsection \<open>run\<close>

text \<open>The fields of \<^verbatim>\<open>cmdLineEnv\<close> that \<^verbatim>\<open>run\<close> reads.\<close>

record cmdLineEnv =
  args :: "string list"
  endpoint :: string
  injson :: bool
  verbose :: bool
  ver :: bool

text \<open>
  What one run meets outside \<^verbatim>\<open>main.go\<close>:
  \<^item> \<open>parsed\<close>: the \<^verbatim>\<open>cmdLineEnv\<close> after \<^verbatim>\<open>parseFlagsAndArgs\<close>;
  \<^item> \<open>BuildName\<close>, \<open>BuildVersion\<close>, \<open>Args0\<close>: package \<^verbatim>\<open>version\<close> and \<^verbatim>\<open>os.Args[0]\<close>;
  \<^item> \<open>setEndpoint\<close>: the lines that method writes to the log, and the panic it ends in
    or the endpoint it has set;
  \<^item> \<open>urlParse\<close>: \<^verbatim>\<open>url.Parse\<close>, the scheme and the host of an endpoint, \<open>None\<close> for an
    error; \<open>Dial\<close>: \<^verbatim>\<open>net.Dial\<close>, its error if any;
  \<^item> \<open>Encode\<close>: the error of \<^verbatim>\<open>encoder.Encode(&send)\<close>, if any;
  \<^item> \<open>Decode\<close>: the error of \<^verbatim>\<open>decoder.Decode(&recv)\<close>, or the object it has stored in
    \<^verbatim>\<open>recv\<close>. On an error \<^verbatim>\<open>recv\<close> is left as \<^verbatim>\<open>make(admin_info)\<close> made it, empty.
\<close>

record world =
  parsed :: cmdLineEnv
  BuildName :: string
  BuildVersion :: string
  Args0 :: string
  setEndpoint :: "string list \<times> (panic + string)"
  urlParse :: "string \<Rightarrow> (string \<times> string) option"
  Dial :: "string \<Rightarrow> string \<Rightarrow> string option"
  Encode :: "admin_info \<Rightarrow> string option"
  Decode :: "string + (string \<times> val) list"

text \<open>
  \<^verbatim>\<open>connect\<close> (lines 144 to 171): the messages it logs and the panic it ends in, if any.
  After an error of \<^verbatim>\<open>url.Parse\<close> the URL is \<^verbatim>\<open>nil\<close> and \<^verbatim>\<open>u.Host\<close> at line 162
  dereferences it; \<^verbatim>\<open>endpoint[7:]\<close> needs seven bytes.
\<close>

definition connect :: "world \<Rightarrow> string \<Rightarrow> string list \<times> panic option" where
  "connect W ep =
     (case urlParse W ep of
        Some u \<Rightarrow>
          (let scheme = ToLower (fst u) in
           if scheme = ''unix'' then
             (if length ep < 7 then ([], Some SliceBounds)
              else ([''Connecting to UNIX socket '' @ drop 7 ep],
                    map_option ErrorValue (Dial W ''unix'' (drop 7 ep))))
           else if scheme = ''tcp'' then
             ([''Connecting to TCP socket '' @ snd u],
              map_option ErrorValue (Dial W ''tcp'' (snd u)))
           else ([''Unknown protocol or malformed address - check your endpoint''],
                 Some (ErrorValue ''protocol not supported'')))
      | None \<Rightarrow> ([], Some NilDereference))"

text \<open>
  The state of the process: what it has written to the standard output, and the messages
  in \<^verbatim>\<open>logbuffer\<close>. (\<^verbatim>\<open>flag.Usage\<close> writes to the standard error, which is left out.)
\<close>

record proc =
  stdout :: string
  logbuffer :: "string list"

text \<open>Lines 137 to 141.\<close>

definition finalStatus :: "(string \<times> val) list \<Rightarrow> nat" where
  "finalStatus recv =
     (case map_of recv ''status'' of
        Some v \<Rightarrow> (if v \<noteq> Text ''success'' then 1 else 0)
      | None \<Rightarrow> 0)"

text \<open>
  Lines 105 to 141, from \<^verbatim>\<open>decoder.Decode(&recv)\<close> on; \<open>lg\<close> is the log so far. The
  result is the return value of the body of \<^verbatim>\<open>run\<close>, or the panic that ends it.
\<close>

definition receive :: "platform \<Rightarrow> world \<Rightarrow> string list \<Rightarrow> proc \<times> (panic + nat)" where
  "receive P W lg =
     (case Decode W of
        Inr recv \<Rightarrow>
          (let lg1 = lg @ [''Response received''] in
           if index recv ''status'' = Text ''error'' then
             (\<lparr>stdout =
                 (case map_of recv ''error'' of
                    Some err \<Rightarrow> Println [''Admin socket returned an error:'', Sprint P err]
                  | None \<Rightarrow>
                      Println [''Admin socket returned an error but didn't specify any error text'']),
               logbuffer = lg1\<rparr>, Inr 1)
           else if map_of recv ''request'' = None then
             (\<lparr>stdout = Println [''Missing request in response (malformed response?)''],
               logbuffer = lg1\<rparr>, Inr 1)
           else if map_of recv ''response'' = None then
             (\<lparr>stdout = Println [''Missing response body (malformed response?)''],
               logbuffer = lg1\<rparr>, Inr 1)
           else
             (case assertRecord (index recv ''response'') of
                Inl p \<Rightarrow> (\<lparr>stdout = [], logbuffer = lg1\<rparr>, Inl p)
              | Inr res \<Rightarrow>
                  (if injson (parsed W) then
                     (\<lparr>stdout = (case MarshalIndent P (Record res) of
                                   Some json \<Rightarrow> Println [json] | None \<Rightarrow> []),
                       logbuffer = lg1\<rparr>, Inr 0)
                   else
                     (case handleAll P recv (verbose (parsed W)) of
                        (out, Inl p) \<Rightarrow> (\<lparr>stdout = out, logbuffer = lg1\<rparr>, Inl p)
                      | (out, Inr u) \<Rightarrow>
                          (\<lparr>stdout = out, logbuffer = lg1\<rparr>, Inr (finalStatus recv))))))
      | Inl err \<Rightarrow>
          (\<lparr>stdout = [], logbuffer = lg @ [''Error receiving response: '' @ err]\<rparr>,
           Inr (finalStatus [])))"

text \<open>The body of \<^verbatim>\<open>run\<close> (lines 40 to 141).\<close>

definition runBody :: "platform \<Rightarrow> world \<Rightarrow> proc \<times> (panic + nat)" where
  "runBody P W =
     (if ver (parsed W) then
        (\<lparr>stdout = Println [''Build name:'', BuildName W] @
                    Println [''Build version:'', BuildVersion W] @
                    Println [''To get the version number of the running Yggdrasil node, run'',
                             Args0 W, ''getSelf''],
          logbuffer = []\<rparr>, Inr 0)
      else if length (args (parsed W)) = 0 then (\<lparr>stdout = [], logbuffer = []\<rparr>, Inr 0)
      else
        (case setEndpoint W of
           (lg0, Inl p) \<Rightarrow> (\<lparr>stdout = [], logbuffer = lg0\<rparr>, Inl p)
         | (lg0, Inr ep) \<Rightarrow>
             (case connect W ep of
                (lg, Some p) \<Rightarrow> (\<lparr>stdout = [], logbuffer = lg0 @ lg\<rparr>, Inl p)
              | (lg, None) \<Rightarrow>
                  (let b = argLoop 0 (args (parsed W))
                             \<lparr>send = Map.empty, logged = lg0 @ lg @ [''Connected'']\<rparr>
                   in case Encode W (send b) of
                        Some err \<Rightarrow> (\<lparr>stdout = [], logbuffer = logged b\<rparr>, Inl (ErrorValue err))
                      | None \<Rightarrow> receive P W (logged b @ [''Request sent''])))))"

text \<open>\<^verbatim>\<open>fmt.Print(logbuffer)\<close>: every message on a line of its own, after its date and time.\<close>

definition printLog :: "platform \<Rightarrow> string list \<Rightarrow> string" where
  "printLog P lg = concat (map (\<lambda>im. logStamp P (fst im) @ snd im @ nl) (enumerate 0 lg))"

text \<open>The standard output of the process and the code it exits with.\<close>

record outcome =
  printed :: string
  exitCode :: nat

text \<open>
  \<^verbatim>\<open>run\<close> with its deferred function (lines 31 to 38), and then \<^verbatim>\<open>os.Exit(run())\<close>. The
  deferred function recovers a panic, logs it and prints the log. What it returns is
  discarded, as the result of every deferred call is, and \<^verbatim>\<open>run\<close>, whose result has no
  name, returns the zero value of \<^verbatim>\<open>int\<close> after a recovered panic.
\<close>

definition run :: "platform \<Rightarrow> world \<Rightarrow> outcome" where
  "run P W =
     (case runBody P W of
        (st, Inl r) \<Rightarrow>
          \<lparr>printed = stdout st @ printLog P (logbuffer st @ [''Fatal error: '' @ panicText P r]),
            exitCode = 0\<rparr>
      | (st, Inr code) \<Rightarrow> \<lparr>printed = stdout st, exitCode = code\<rparr>)"

text \<open>
  The request has gone out: no version flag, at least one argument, and neither
  \<^verbatim>\<open>setEndpoint\<close> nor \<^verbatim>\<open>connect\<close> nor \<^verbatim>\<open>encoder.Encode\<close> has failed. Then \<^verbatim>\<open>run\<close>
  is at line 105.
\<close>

definition requestSent :: "world \<Rightarrow> bool" where
  "requestSent W =
     (\<not> ver (parsed W) \<and> args (parsed W) \<noteq> [] \<and>
      (case setEndpoint W of
         (lg0, Inr ep) \<Rightarrow>
           snd (connect W ep) = None \<and> Encode W (send (buildRequest (args (parsed W)))) = None
       | (lg0, Inl p) \<Rightarrow> False))"

text \<open>The log when the request has gone out, at line 105.\<close>

definition sentLog :: "world \<Rightarrow> string list" where
  "sentLog W =
     (case setEndpoint W of
        (lg0, Inr ep) \<Rightarrow>
          logged (argLoop 0 (args (parsed W))
                    \<lparr>send = Map.empty, logged = lg0 @ fst (connect W ep) @ [''Connected'']\<rparr>) @
          [''Request sent'']
      | (lg0, Inl p) \<Rightarrow> lg0)"

subsection \<open>encoding/json: the bytes of the request\<close>

text \<open>The double quote and the backslash.\<close>

definition dq :: char where
  "dq = CHR 0x22"

definition bs :: char where
  "bs = CHR 0x5C"

text \<open>
  \<^verbatim>\<open>utf8.DecodeRuneInString\<close>, as far as the encoder and the decoder use it: the number
  of bytes of the rune at the head of a string. It is 1 for an ASCII byte, and also for a
  byte that begins no well-formed sequence (the rune is then \<^verbatim>\<open>RuneError\<close>); a sequence
  that is too long for its rune, that encodes a surrogate or a rune above U+10FFFF, or
  that is cut short, is not well formed.
\<close>

definition between :: "string \<Rightarrow> nat \<Rightarrow> nat \<Rightarrow> nat \<Rightarrow> bool" where
  "between s i lo hi = (i < length s \<and> lo \<le> (of_char (s ! i) :: nat) \<and> (of_char (s ! i) :: nat) \<le> hi)"

definition runeSize :: "string \<Rightarrow> nat" where
  "runeSize s =
     (case s of
        [] \<Rightarrow> 0
      | b # r \<Rightarrow>
          (let x = (of_char b :: nat) in
           if 0xC2 \<le> x \<and> x \<le> 0xDF then (if between r 0 0x80 0xBF then 2 else 1)
           else if 0xE0 \<le> x \<and> x \<le> 0xEF then
             (if between r 0 (if x = 0xE0 then 0xA0 else 0x80) (if x = 0xED then 0x9F else 0xBF) \<and>
                 between r 1 0x80 0xBF
              then 3 else 1)
           else if 0xF0 \<le> x \<and> x \<le> 0xF4 then
             (if between r 0 (if x = 0xF0 then 0x90 else 0x80) (if x = 0xF4 then 0x8F else 0xBF) \<and>
                 between r 1 0x80 0xBF \<and> between r 2 0x80 0xBF
              then 4 else 1)
           else 1))"

text \<open>\<^verbatim>\<open>utf8.ValidString\<close>.\<close>

fun validUTF8 :: "string \<Rightarrow> bool" where
  "validUTF8 [] = True"
| "validUTF8 (c # cs) =
     (if (of_char c :: nat) < 0x80 then validUTF8 cs
      else 1 < runeSize (c # cs) \<and> validUTF8 (drop (runeSize (c # cs) - 1) cs))"

definition hexDigit :: "nat \<Rightarrow> char" where
  "hexDigit n = ''0123456789abcdef'' ! n"

text \<open>
  The bytes that the encoder copies as they are (\<^verbatim>\<open>htmlSafeSet\<close>): the ASCII bytes from
  the space on, but for the double quote, the backslash and \<open>&\<close>, \<open><\<close>, \<open>>\<close>.
\<close>

definition htmlSafe :: "char \<Rightarrow> bool" where
  "htmlSafe c =
     (0x20 \<le> (of_char c :: nat) \<and> (of_char c :: nat) < 0x80 \<and>
      c \<noteq> dq \<and> c \<noteq> bs \<and> c \<noteq> CHR ''&'' \<and> c \<noteq> CHR ''<'' \<and> c \<noteq> CHR ''>'')"

text \<open>What the encoder writes for one ASCII byte of a string.\<close>

definition escapeASCII :: "char \<Rightarrow> string" where
  "escapeASCII c =
     (if htmlSafe c then [c]
      else if c = bs \<or> c = dq then [bs, c]
      else if c = CHR 0x0A then [bs, CHR ''n'']
      else if c = CHR 0x0D then [bs, CHR ''r'']
      else if c = CHR 0x09 then [bs, CHR ''t'']
      else [bs, CHR ''u'', CHR ''0'', CHR ''0'',
            hexDigit ((of_char c :: nat) div 16), hexDigit ((of_char c :: nat) mod 16)])"

text \<open>
  The body of a string between its quotes, as \<^verbatim>\<open>encodeState.string\<close> writes it with
  \<^verbatim>\<open>escapeHTML\<close> set, which an \<^verbatim>\<open>Encoder\<close> has: a byte that begins no well-formed
  sequence becomes the escape of U+FFFD, and U+2028 and U+2029 (bytes E2 80 A8 and E2 80 A9) are
  escaped.
\<close>

fun encodeString :: "string \<Rightarrow> string" where
  "encodeString [] = []"
| "encodeString (c # cs) =
     (if (of_char c :: nat) < 0x80 then escapeASCII c @ encodeString cs
      else if runeSize (c # cs) = 1
        then [bs, CHR ''u'', CHR ''f'', CHR ''f'', CHR ''f'', CHR ''d''] @ encodeString cs
      else if take 3 (c # cs) = [CHR 0xE2, CHR 0x80, CHR 0xA8]
        then [bs, CHR ''u'', CHR ''2'', CHR ''0'', CHR ''2'', CHR ''8''] @ encodeString (drop 2 cs)
      else if take 3 (c # cs) = [CHR 0xE2, CHR 0x80, CHR 0xA9]
        then [bs, CHR ''u'', CHR ''2'', CHR ''0'', CHR ''2'', CHR ''9''] @ encodeString (drop 2 cs)
      else take (runeSize (c # cs)) (c # cs) @ encodeString (drop (runeSize (c # cs) - 1) cs))"

definition quote :: "string \<Rightarrow> string" where
  "quote s = dq # encodeString s @ [dq]"

text \<open>
  A value of the map: a \<^verbatim>\<open>bool\<close> as \<^verbatim>\<open>true\<close> or \<^verbatim>\<open>false\<close>, an \<^verbatim>\<open>int\<close> in decimal
  digits, a \<^verbatim>\<open>string\<close> quoted.
\<close>

definition encodeValue :: "goval \<Rightarrow> string" where
  "encodeValue v =
     (case v of GoBool b \<Rightarrow> showBool b | GoInt i \<Rightarrow> showInt i | GoString s \<Rightarrow> quote s)"

definition encodeMember :: "admin_info \<Rightarrow> string \<Rightarrow> string" where
  "encodeMember m k = quote k @ '':'' @ encodeValue (the (m k))"

text \<open>
  \<^verbatim>\<open>json.Marshal\<close> of the map: one object, the keys sorted as strings of bytes.
  \<^verbatim>\<open>encoder.Encode(&send)\<close> at line 99 writes these bytes and a newline.
\<close>

definition Marshal :: "admin_info \<Rightarrow> string" where
  "Marshal m = ''{'' @ Join (map (encodeMember m) (sorted_list_of_set (dom m))) '','' @ ''}''"

definition encoded :: "admin_info \<Rightarrow> string" where
  "encoded m = Marshal m @ nl"

subsection \<open>encoding/json: the generic decoder\<close>

text \<open>
  \<^verbatim>\<open>json.Unmarshal\<close> into an \<^verbatim>\<open>interface{}\<close>. The bytes are cut into tokens; \<^verbatim>\<open>getu4\<close>
  reads the four hexadecimal digits of an escape of a rune.
\<close>

definition hexVal :: "char \<Rightarrow> nat option" where
  "hexVal c =
     (let x = (of_char c :: nat) in
      if 48 \<le> x \<and> x \<le> 57 then Some (x - 48)
      else if 97 \<le> x \<and> x \<le> 102 then Some (x - 87)
      else if 65 \<le> x \<and> x \<le> 70 then Some (x - 55)
      else None)"

definition getu4 :: "string \<Rightarrow> nat option" where
  "getu4 s =
     (case s of
        b # u # h3 # h2 # h1 # h0 # r \<Rightarrow>
          (if b = bs \<and> u = CHR ''u'' then
             (case (hexVal h3, hexVal h2, hexVal h1, hexVal h0) of
                (Some x3, Some x2, Some x1, Some x0) \<Rightarrow> Some (((x3 * 16 + x2) * 16 + x1) * 16 + x0)
              | _ \<Rightarrow> None)
           else None)
      | _ \<Rightarrow> None)"

text \<open>\<^verbatim>\<open>utf8.EncodeRune\<close> for a rune that is no surrogate.\<close>

definition encodeRune :: "nat \<Rightarrow> string" where
  "encodeRune r =
     (if r < 0x80 then [char_of r]
      else if r < 0x800 then [char_of (0xC0 + r div 64), char_of (0x80 + r mod 64)]
      else if r < 0x10000 then
        [char_of (0xE0 + r div 4096), char_of (0x80 + r div 64 mod 64), char_of (0x80 + r mod 64)]
      else
        [char_of (0xF0 + r div 262144), char_of (0x80 + r div 4096 mod 64),
         char_of (0x80 + r div 64 mod 64), char_of (0x80 + r mod 64)])"

text \<open>The bytes of U+FFFD, which stands for what cannot be decoded.\<close>

definition replacement :: string where
  "replacement = [CHR 0xEF, CHR 0xBF, CHR 0xBD]"

definition simpleEscape :: "char \<Rightarrow> char option" where
  "simpleEscape e =
     (if e = dq \<or> e = bs \<or> e = CHR ''/'' then Some e
      else if e = CHR ''b'' then Some (CHR 0x08)
      else if e = CHR ''f'' then Some (CHR 0x0C)
      else if e = CHR ''n'' then Some (CHR 0x0A)
      else if e = CHR ''r'' then Some (CHR 0x0D)
      else if e = CHR ''t'' then Some (CHR 0x09)
      else None)"

text \<open>
  A string literal after its opening quote: the bytes it stands for, and the number of
  bytes of the literal up to and with the closing quote; \<open>None\<close> if the literal does not
  end, has a control character or a wrong escape. Two escapes that are a pair of
  surrogates give one rune, a surrogate alone gives U+FFFD, and so does a byte that begins
  no well-formed sequence.
\<close>

fun unquote :: "string \<Rightarrow> (string \<times> nat) option" where
  "unquote [] = None"
| "unquote (c # cs) =
     (if c = dq then Some ([], 1)
      else if c = bs then
        (case cs of
           [] \<Rightarrow> None
         | e # r \<Rightarrow>
             (if e = CHR ''u'' then
                (case getu4 (c # cs) of
                   None \<Rightarrow> None
                 | Some rr \<Rightarrow>
                     (if 0xD800 \<le> rr \<and> rr < 0xE000 then
                        (case getu4 (drop 4 r) of
                           None \<Rightarrow>
                             map_option (\<lambda>(s, n). (replacement @ s, n + 6)) (unquote (drop 4 r))
                         | Some rr1 \<Rightarrow>
                             (if rr < 0xDC00 \<and> 0xDC00 \<le> rr1 \<and> rr1 < 0xE000 then
                                map_option
                                  (\<lambda>(s, n). (encodeRune ((rr - 0xD800) * 1024 + (rr1 - 0xDC00) + 0x10000) @ s,
                                             n + 12))
                                  (unquote (drop 10 r))
                              else
                                map_option (\<lambda>(s, n). (replacement @ s, n + 6)) (unquote (drop 4 r))))
                      else map_option (\<lambda>(s, n). (encodeRune rr @ s, n + 6)) (unquote (drop 4 r))))
              else
                (case simpleEscape e of
                   None \<Rightarrow> None
                 | Some b \<Rightarrow> map_option (\<lambda>(s, n). (b # s, n + 2)) (unquote r))))
      else if (of_char c :: nat) < 0x20 then None
      else if (of_char c :: nat) < 0x80 then map_option (\<lambda>(s, n). (c # s, n + 1)) (unquote cs)
      else if runeSize (c # cs) = 1
        then map_option (\<lambda>(s, n). (replacement @ s, n + 1)) (unquote cs)
      else map_option (\<lambda>(s, n). (take (runeSize (c # cs)) (c # cs) @ s, n + runeSize (c # cs)))
             (unquote (drop (runeSize (c # cs) - 1) cs)))"

text \<open>
  A number literal at the head of a string: an optional minus sign, the integer part (a
  single 0, or digits that begin with another digit), an optional fraction, an optional
  exponent. The result is the value of the literal and the number of its bytes.
\<close>

definition scanNumber :: "string \<Rightarrow> (rat \<times> nat) option" where
  "scanNumber s =
     (let neg = HasPrefix s ''-'';
          s1 = (if neg then drop 1 s else s);
          ip = (if HasPrefix s1 ''0'' then ''0'' else takeWhile isDigit s1);
          s2 = drop (length ip) s1;
          dot = HasPrefix s2 ''.'';
          fp = (if dot then takeWhile isDigit (drop 1 s2) else []);
          s3 = (if dot then drop (1 + length fp) s2 else s2);
          ex = (HasPrefix s3 ''e'' \<or> HasPrefix s3 ''E'');
          s4 = drop 1 s3;
          sign = (HasPrefix s4 ''-'' \<or> HasPrefix s4 ''+'');
          ep = (if ex then takeWhile isDigit (if sign then drop 1 s4 else s4) else []);
          mantissa = (of_nat (decimal ip) + of_nat (decimal fp) / 10 ^ length fp :: rat);
          exponent = (if HasPrefix s4 ''-'' then - int (decimal ep) else int (decimal ep));
          consumed = (if neg then 1 else 0) + length ip + (if dot then 1 + length fp else 0) +
                     (if ex then 1 + (if sign then 1 else 0) + length ep else 0)
      in if ip = [] \<or> (dot \<and> fp = []) \<or> (ex \<and> ep = []) then None
         else Some ((if neg then - 1 else 1) * mantissa * 10 powi exponent, consumed))"

datatype token =
    LBrace | RBrace | LBracket | RBracket | Comma | Colon
  | TString string | TNumber rat | TTrue | TFalse | TNull

definition isSpace :: "char \<Rightarrow> bool" where
  "isSpace c = (c = CHR '' '' \<or> c = CHR 0x09 \<or> c = CHR 0x0D \<or> c = CHR 0x0A)"

text \<open>
  The tokens of a text. A number is converted by \<^verbatim>\<open>strconv.ParseFloat\<close>: it is rounded
  to the nearest \<^verbatim>\<open>float64\<close>, and a number too large for a \<^verbatim>\<open>float64\<close> is an error.
\<close>

fun tokenize :: "string \<Rightarrow> token list option" where
  "tokenize [] = Some []"
| "tokenize (c # cs) =
     (if isSpace c then tokenize cs
      else if c = CHR ''{'' then map_option (Cons LBrace) (tokenize cs)
      else if c = CHR ''}'' then map_option (Cons RBrace) (tokenize cs)
      else if c = CHR ''['' then map_option (Cons LBracket) (tokenize cs)
      else if c = CHR '']'' then map_option (Cons RBracket) (tokenize cs)
      else if c = CHR '','' then map_option (Cons Comma) (tokenize cs)
      else if c = CHR '':'' then map_option (Cons Colon) (tokenize cs)
      else if c = dq then
        (case unquote cs of
           None \<Rightarrow> None
         | Some (s, n) \<Rightarrow> map_option (Cons (TString s)) (tokenize (drop n cs)))
      else if c = CHR ''-'' \<or> isDigit c then
        (case scanNumber (c # cs) of
           None \<Rightarrow> None
         | Some (q, n) \<Rightarrow>
             (if \<bar>round64 q\<bar> < 2 ^ 1024
              then map_option (Cons (TNumber (round64 q))) (tokenize (drop (n - 1) cs))
              else None))
      else if take 4 (c # cs) = ''true'' then map_option (Cons TTrue) (tokenize (drop 3 cs))
      else if take 5 (c # cs) = ''false'' then map_option (Cons TFalse) (tokenize (drop 4 cs))
      else if take 4 (c # cs) = ''null'' then map_option (Cons TNull) (tokenize (drop 3 cs))
      else None)"

text \<open>
  The value that a list of tokens begins with, and the tokens after it. An object is
  stored in a map, where a key that comes again replaces the value it had. The first
  argument bounds the number of nested calls.
\<close>

fun parseValue :: "nat \<Rightarrow> token list \<Rightarrow> (val \<times> token list) option"
  and parseElements :: "nat \<Rightarrow> val list \<Rightarrow> token list \<Rightarrow> (val \<times> token list) option"
  and parseMembers :: "nat \<Rightarrow> (string \<times> val) list \<Rightarrow> token list \<Rightarrow> (val \<times> token list) option"
where
  "parseValue 0 ts = None"
| "parseValue (Suc n) [] = None"
| "parseValue (Suc n) (t # ts) =
     (case t of
        TString s \<Rightarrow> Some (Text s, ts)
      | TNumber f \<Rightarrow> Some (Number f, ts)
      | TTrue \<Rightarrow> Some (Bool True, ts)
      | TFalse \<Rightarrow> Some (Bool False, ts)
      | TNull \<Rightarrow> Some (Null, ts)
      | LBracket \<Rightarrow>
          (case ts of RBracket # r \<Rightarrow> Some (Sequence [], r) | _ \<Rightarrow> parseElements n [] ts)
      | LBrace \<Rightarrow>
          (case ts of RBrace # r \<Rightarrow> Some (Record [], r) | _ \<Rightarrow> parseMembers n [] ts)
      | _ \<Rightarrow> None)"
| "parseElements 0 acc ts = None"
| "parseElements (Suc n) acc ts =
     (case parseValue n ts of
        None \<Rightarrow> None
      | Some (v, r) \<Rightarrow>
          (case r of
             Comma # r1 \<Rightarrow> parseElements n (acc @ [v]) r1
           | RBracket # r1 \<Rightarrow> Some (Sequence (acc @ [v]), r1)
           | _ \<Rightarrow> None))"
| "parseMembers 0 acc ts = None"
| "parseMembers (Suc n) acc ts =
     (case ts of
        TString k # Colon # r \<Rightarrow>
          (case parseValue n r of
             None \<Rightarrow> None
           | Some (v, r1) \<Rightarrow>
               (case r1 of
                  Comma # r2 \<Rightarrow> parseMembers n (AList.update k v acc) r2
                | RBrace # r2 \<Rightarrow> Some (Record (AList.update k v acc), r2)
                | _ \<Rightarrow> None))
      | _ \<Rightarrow> None)"

text \<open>
  \<^verbatim>\<open>json.Unmarshal(bytes, &v)\<close> for a \<^verbatim>\<open>v\<close> of type \<^verbatim>\<open>interface{}\<close>: one value, and
  nothing but white space after it; \<open>None\<close> for an error. A text of \<open>n\<close> tokens needs
  no more than \<open>n\<close> nested calls.
\<close>

definition Unmarshal :: "string \<Rightarrow> val option" where
  "Unmarshal s =
     (case tokenize s of
        None \<Rightarrow> None
      | Some ts \<Rightarrow>
          (case parseValue (Suc (length ts)) ts of
             Some (v, []) \<Rightarrow> Some v
           | _ \<Rightarrow> None))"

subsection \<open>The request builder in the words of the specification\<close>

text \<open>
  Section 4.2 of the specification, for an argument \<open>a\<close> after the first: without \<open>=\<close>
  the parameter \<open>a\<close> is true; with exactly one \<open>=\<close> the part after it is an integer if it
  parses as one, else a boolean if it is \<open>true\<close> or \<open>false\<close> in any case of the letters,
  else a text; with more than one \<open>=\<close> the key is the part before the first and the value
  is all that follows it, as a text.
\<close>

definition spec_key :: "string \<Rightarrow> string" where
  "spec_key a = takeWhile (\<lambda>c. c \<noteq> CHR ''='') a"

definition spec_rest :: "string \<Rightarrow> string" where
  "spec_rest a = drop 1 (dropWhile (\<lambda>c. c \<noteq> CHR ''='') a)"

definition spec_value :: "string \<Rightarrow> goval" where
  "spec_value a =
     (let n = count_list a (CHR ''=''); v = spec_rest a
      in if n = 0 then GoBool True
         else if n = 1 then
           (case Atoi v of
              Some i \<Rightarrow> GoInt i
            | None \<Rightarrow>
                if map lowerByte v = ''true'' then GoBool True
                else if map lowerByte v = ''false'' then GoBool False
                else GoString v)
         else GoString v)"



text \<open>
  The value of the map as the specification has it in a record: an integer is the
  \<^verbatim>\<open>float64\<close> nearest to it.
\<close>

definition spec_val :: "goval \<Rightarrow> val" where
  "spec_val v =
     (case v of GoBool b \<Rightarrow> Bool b | GoInt i \<Rightarrow> Number (round64 (of_int i)) | GoString s \<Rightarrow> Text s)"

subsection \<open>The safe accessors in the words of the specification\<close>

text \<open>
  Section 4.1 of the specification: \<open>asBool\<close>, \<open>asNumber\<close>, \<open>asText\<close>, \<open>asSequence\<close>
  and \<open>asRecord\<close> return the content of a value with the expected tag, and absent for a
  value with another tag, as the value of a missing field is.
\<close>

definition spec_asBool :: "val \<Rightarrow> bool option" where
  "spec_asBool v = (case v of Bool b \<Rightarrow> Some b | _ \<Rightarrow> None)"

definition spec_asNumber :: "val \<Rightarrow> rat option" where
  "spec_asNumber v = (case v of Number f \<Rightarrow> Some f | _ \<Rightarrow> None)"

definition spec_asText :: "val \<Rightarrow> string option" where
  "spec_asText v = (case v of Text s \<Rightarrow> Some s | _ \<Rightarrow> None)"

definition spec_asSequence :: "val \<Rightarrow> val list option" where
  "spec_asSequence v = (case v of Sequence vs \<Rightarrow> Some vs | _ \<Rightarrow> None)"

definition spec_asRecord :: "val \<Rightarrow> (string \<times> val) list option" where
  "spec_asRecord v = (case v of Record r \<Rightarrow> Some r | _ \<Rightarrow> None)"

text \<open>
  Section 4.7: a line is rendered only if the expected field is present with the expected
  tag, and is silently omitted otherwise.
\<close>

definition spec_line :: "'a option \<Rightarrow> ('a \<Rightarrow> string) \<Rightarrow> string" where
  "spec_line x f = (case x of Some y \<Rightarrow> f y | None \<Rightarrow> [])"

text \<open>The build name and version are skipped if literally \<open>unknown\<close>.\<close>

definition spec_known :: "string option \<Rightarrow> string option" where
  "spec_known x = (case x of Some s \<Rightarrow> (if s = ''unknown'' then None else Some s) | None \<Rightarrow> None)"

subsection \<open>A platform and a run for the examples\<close>

text \<open>
  A platform on which the examples are evaluated: numbers are printed as whole numbers
  and every byte counts as a rune, which is right for the whole numbers and the ASCII
  strings of the examples; the text of a runtime panic is cut short, and the lines of the
  log bear no date.
\<close>

definition examplePlatform :: platform where
  "examplePlatform =
     \<lparr>fmtFloat = (\<lambda>q. showInt \<lfloor>q\<rfloor>),
      uintOutOfRange = (\<lambda>q. 0),
      RuneCountInString = length,
      MarshalIndent = (\<lambda>v. None),
      panicText = (\<lambda>p. case p of
                         ErrorValue e \<Rightarrow> e
                       | InterfaceConversion \<Rightarrow> ''interface conversion''
                       | NilDereference \<Rightarrow> ''nil pointer dereference''
                       | SliceBounds \<Rightarrow> ''slice bounds out of range''),
      logStamp = (\<lambda>i. []),
      rangeAgain = (\<lambda>recs. recs),
      queuePercent = (\<lambda>m size. nat \<lfloor>100 / m * size\<rfloor>),
      aggregated = (\<lambda>m qs. [])\<rparr>"

text \<open>
  A run with the arguments \<open>as\<close> in which the daemon is reached over TCP and the
  decoder ends as \<open>d\<close> says.
\<close>

definition exampleWorld :: "string list \<Rightarrow> string + (string \<times> val) list \<Rightarrow> world" where
  "exampleWorld as d =
     \<lparr>parsed = \<lparr>args = as, endpoint = ''tcp://localhost:9001'', injson = False,
                verbose = False, ver = False\<rparr>,
      BuildName = ''yggdrasil'',
      BuildVersion = ''0.3.5'',
      Args0 = ''yggdrasilctl'',
      setEndpoint = ([], Inr ''tcp://localhost:9001''),
      urlParse = (\<lambda>ep. Some (''tcp'', ''localhost:9001'')),
      Dial = (\<lambda>network address. None),
      Encode = (\<lambda>m. None),
      Decode = d\<rparr>"

section \<open>Properties\<close>

subsection \<open>Splitting and joining\<close>

lemma Split_nonempty: "Split sep s \<noteq> []"
  by (induction s) (auto split: list.splits)

lemma length_Split: "length (Split sep s) = Suc (count_list s sep)"
  by (induction s) (auto split: list.splits simp: Split_nonempty)

lemma hd_Split: "hd (Split sep s) = takeWhile (\<lambda>c. c \<noteq> sep) s"
  by (induction s) (auto split: list.splits simp: Split_nonempty)

lemma Join_Split: "Join (Split sep s) [sep] = s"
proof (induction s)
  case Nil
  then show ?case by simp
next
  case (Cons c cs)
  obtain t ts where sp: "Split sep cs = t # ts"
    using Split_nonempty [of sep cs] by (cases "Split sep cs") auto
  show ?case
  proof (cases "c = sep")
    case True
    with Cons sp show ?thesis by (cases ts) auto
  next
    case False
    with Cons sp show ?thesis by (cases ts) auto
  qed
qed

lemma tl_Split:
  "sep \<in> set s \<Longrightarrow> Join (tl (Split sep s)) [sep] = drop 1 (dropWhile (\<lambda>c. c \<noteq> sep) s)"
proof (induction s)
  case Nil
  then show ?case by simp
next
  case (Cons c cs)
  show ?case
  proof (cases "c = sep")
    case True
    then show ?thesis by (simp add: Join_Split)
  next
    case False
    with Cons obtain t ts where sp: "Split sep cs = t # ts"
      using Split_nonempty [of sep cs] by (cases "Split sep cs") auto
    from False Cons sp show ?thesis by auto
  qed
qed

subsection \<open>Lowering and literals without i and k\<close>

lemma lowerByte_E2: "lowerByte (CHR 0xE2) = CHR 0xE2"
  by (simp add: lowerByte_def)

lemma lowerByte_C4: "lowerByte (CHR 0xC4) = CHR 0xC4"
  by (simp add: lowerByte_def)

lemma ToLower_plain:
  assumes "set l \<inter> {CHR ''i'', CHR ''k'', CHR 0xE2, CHR 0xC4} = {}"
  shows "ToLower v = l \<longleftrightarrow> map lowerByte v = l"
  using assms
proof (induction v arbitrary: l rule: ToLower.induct)
  case (1 a b c cs)
  show ?case
  proof (cases l)
    case Nil
    then show ?thesis by simp
  next
    case (Cons x l')
    with "1.prems" have px: "x \<noteq> CHR ''i'' \<and> x \<noteq> CHR ''k'' \<and> x \<noteq> CHR 0xE2 \<and> x \<noteq> CHR 0xC4"
      and pl: "set l' \<inter> {CHR ''i'', CHR ''k'', CHR 0xE2, CHR 0xC4} = {}"
      by auto
    consider (kelvin) "a = CHR 0xE2 \<and> b = CHR 0x84 \<and> c = CHR 0xAA"
      | (dotted) "\<not> (a = CHR 0xE2 \<and> b = CHR 0x84 \<and> c = CHR 0xAA)" "a = CHR 0xC4 \<and> b = CHR 0xB0"
      | (other) "\<not> (a = CHR 0xE2 \<and> b = CHR 0x84 \<and> c = CHR 0xAA)" "\<not> (a = CHR 0xC4 \<and> b = CHR 0xB0)"
      by blast
    then show ?thesis
    proof cases
      case kelvin
      with px Cons show ?thesis by (auto simp: lowerByte_E2)
    next
      case dotted
      with px Cons show ?thesis by (auto simp: lowerByte_C4)
    next
      case other
      from "1.IH"(3) [OF other pl] other Cons show ?thesis by auto
    qed
  qed
next
  case (2 a b)
  show ?case
  proof (cases "a = CHR 0xC4 \<and> b = CHR 0xB0")
    case True
    with "2.prems" show ?thesis
      by (cases l) (auto simp: lowerByte_C4)
  next
    case False
    then show ?thesis by auto
  qed
next
  case (3 a)
  then show ?case by auto
next
  case 4
  then show ?case by auto
qed

lemma ToLower_true: "ToLower v = ''true'' \<longleftrightarrow> map lowerByte v = ''true''"
  by (rule ToLower_plain) simp

lemma ToLower_false: "ToLower v = ''false'' \<longleftrightarrow> map lowerByte v = ''false''"
  by (rule ToLower_plain) simp

subsection \<open>The loop over the arguments\<close>

lemma argStep_send:
  assumes "c \<noteq> 0"
  shows "send (argStep c a b) = (send b)(spec_key a \<mapsto> spec_value a)"
proof -
  let ?ts = "Split (CHR ''='') a"
  have len: "length ?ts = Suc (count_list a (CHR ''=''))" by (rule length_Split)
  have key: "?ts ! 0 = spec_key a"
    using hd_Split [of "CHR ''=''" a] Split_nonempty [of "CHR ''=''" a]
    by (simp add: spec_key_def hd_conv_nth)
  consider (none) "count_list a (CHR ''='') = 0" | (one) "count_list a (CHR ''='') = 1"
    | (more) "count_list a (CHR ''='') > 1" by linarith
  then show ?thesis
  proof cases
    case none
    with assms len key show ?thesis
      by (simp add: argStep_def spec_value_def Let_def)
  next
    case one
    then have mem: "CHR ''='' \<in> set a" by (metis count_list_0_iff zero_neq_one)
    from one len obtain k v where ts: "?ts = [k, v]"
      by (cases ?ts; cases "tl ?ts"; cases "tl (tl ?ts)") auto
    have "Join (tl ?ts) ''='' = spec_rest a"
      using tl_Split [OF mem] by (simp add: spec_rest_def)
    with ts have v: "?ts ! 1 = spec_rest a" by simp
    from assms len key one v show ?thesis
      by (simp add: argStep_def spec_value_def Let_def ToLower_true ToLower_false
          split: option.splits)
  next
    case more
    then have mem: "CHR ''='' \<in> set a" by (metis count_list_0_iff not_one_less_zero)
    have "Join (tl ?ts) ''='' = spec_rest a"
      using tl_Split [OF mem] by (simp add: spec_rest_def)
    with assms len key more show ?thesis
      by (simp add: argStep_def spec_value_def Let_def)
  qed
qed

lemma argLoop_send:
  "send (argLoop (Suc c) as b) = foldl (\<lambda>m a. m(spec_key a \<mapsto> spec_value a)) (send b) as"
  by (induction as arbitrary: c b) (simp_all add: argStep_send)

lemma argLoop_append: "argLoop c (as @ [a]) b = argStep (c + length as) a (argLoop c as b)"
  by (induction as arbitrary: c b) simp_all

lemma argStep_send_cong: "send b = send b' \<Longrightarrow> send (argStep c a b) = send (argStep c a b')"
  by (simp add: argStep_def Let_def split: option.splits)

lemma argLoop_send_cong: "send b = send b' \<Longrightarrow> send (argLoop c as b) = send (argLoop c as b')"
proof (induction as arbitrary: c b b')
  case Nil
  then show ?case by simp
next
  case (Cons a as)
  from Cons.prems have "send (argStep c a b) = send (argStep c a b')"
    by (rule argStep_send_cong)
  from Cons.IH [OF this] show ?case by simp
qed

lemma spec_key_value_plain:
  "CHR ''='' \<notin> set a \<Longrightarrow> spec_key a = a \<and> spec_value a = GoBool True"
  by (auto simp: spec_key_def spec_value_def takeWhile_eq_all_conv count_list_0_iff)

lemma count_list_append: "count_list (xs @ ys) c = count_list xs c + count_list ys c"
  by (induction xs) auto

lemma spec_key_split:
  "CHR ''='' \<notin> set k \<Longrightarrow> spec_key (k @ ''='' @ v) = k \<and> spec_rest (k @ ''='' @ v) = v
     \<and> count_list (k @ ''='' @ v) (CHR ''='') = Suc (count_list v (CHR ''=''))"
  by (auto simp: spec_key_def spec_rest_def takeWhile_append count_list_append count_list_0_iff
      dropWhile_append)



lemma foldl_upd_last:
  "\<forall>x \<in> set post. spec_key x \<noteq> r \<Longrightarrow>
   foldl (\<lambda>m a. m(spec_key a \<mapsto> spec_value a)) m post r = m r"
  by (induction post arbitrary: m) auto

subsection \<open>The request builder\<close>

text \<open>
  Claim C4. Every argument after the command name is coerced in one of three ways. When
  \<open>a\<close> is the last argument so far, the map after it is the map before it with one key
  set: without \<open>=\<close>, the key \<open>a\<close> to \<^verbatim>\<open>true\<close>; for \<open>k=v\<close> with one \<open>=\<close>, the key \<open>k\<close> to
  the integer that \<^verbatim>\<open>Atoi\<close> reads in \<open>v\<close>, else to the boolean that \<open>v\<close> spells in
  letters of any case, else to the text \<open>v\<close>; with more than one \<open>=\<close>, the key before the
  first \<open>=\<close> to all that follows it, as a text, whatever it spells.
\<close>

theorem parameter_coercion:
  "(CHR ''='' \<notin> set a \<longrightarrow>
      send (buildRequest (name # pre @ [a])) = (send (buildRequest (name # pre)))(a \<mapsto> GoBool True)) \<and>
   (\<forall>k v. a = k @ ''='' @ v \<and> CHR ''='' \<notin> set k \<and> CHR ''='' \<notin> set v \<longrightarrow>
      send (buildRequest (name # pre @ [a])) =
        (send (buildRequest (name # pre)))
          (k \<mapsto> (case Atoi v of
                   Some i \<Rightarrow> GoInt i
                 | None \<Rightarrow>
                     if map lowerByte v = ''true'' then GoBool True
                     else if map lowerByte v = ''false'' then GoBool False
                     else GoString v))) \<and>
   (\<forall>k v. a = k @ ''='' @ v \<and> CHR ''='' \<notin> set k \<and> CHR ''='' \<in> set v \<longrightarrow>
      send (buildRequest (name # pre @ [a])) = (send (buildRequest (name # pre)))(k \<mapsto> GoString v))"
proof -
  have step: "send (buildRequest (name # pre @ [a])) =
      (send (buildRequest (name # pre)))(spec_key a \<mapsto> spec_value a)"
    using argLoop_append [of 0 "name # pre" a]
    by (simp add: buildRequest_def argStep_send)
  have none: "spec_key a = a \<and> spec_value a = GoBool True" if "CHR ''='' \<notin> set a"
    using that by (rule spec_key_value_plain)
  have one: "spec_value (k @ ''='' @ v) =
      (case Atoi v of Some i \<Rightarrow> GoInt i
       | None \<Rightarrow> if map lowerByte v = ''true'' then GoBool True
                 else if map lowerByte v = ''false'' then GoBool False else GoString v)"
    if "CHR ''='' \<notin> set k" "CHR ''='' \<notin> set v" for k v
    using that spec_key_split [of k v] by (simp add: spec_value_def count_list_0_iff)
  have more: "spec_value (k @ ''='' @ v) = GoString v"
    if "CHR ''='' \<notin> set k" "CHR ''='' \<in> set v" for k v
    using that spec_key_split [of k v] by (simp add: spec_value_def count_list_0_iff)
  have key: "spec_key (k @ ''='' @ v) = k" if "CHR ''='' \<notin> set k" for k v
    using that spec_key_split [of k v] by simp
  show ?thesis
  proof (intro conjI allI impI)
    assume "CHR ''='' \<notin> set a"
    with step none show "send (buildRequest (name # pre @ [a])) =
        (send (buildRequest (name # pre)))(a \<mapsto> GoBool True)" by simp
  next
    fix k v
    assume h: "a = k @ ''='' @ v \<and> CHR ''='' \<notin> set k \<and> CHR ''='' \<notin> set v"
    then have "spec_key a = k" using key by blast
    moreover from h have "spec_value a = (case Atoi v of Some i \<Rightarrow> GoInt i
       | None \<Rightarrow> if map lowerByte v = ''true'' then GoBool True
                 else if map lowerByte v = ''false'' then GoBool False else GoString v)"
      using one by blast
    ultimately show "send (buildRequest (name # pre @ [a])) =
        (send (buildRequest (name # pre)))
          (k \<mapsto> (case Atoi v of
                   Some i \<Rightarrow> GoInt i
                 | None \<Rightarrow>
                     if map lowerByte v = ''true'' then GoBool True
                     else if map lowerByte v = ''false'' then GoBool False
                     else GoString v))"
      using step by simp
  next
    fix k v
    assume h: "a = k @ ''='' @ v \<and> CHR ''='' \<notin> set k \<and> CHR ''='' \<in> set v"
    then have "spec_key a = k" using key by blast
    moreover from h have "spec_value a = GoString v" using more by blast
    ultimately show "send (buildRequest (name # pre @ [a])) =
        (send (buildRequest (name # pre)))(k \<mapsto> GoString v)"
      using step by simp
  qed
qed

text \<open>
  The five examples of the specification: \<open>x\<close>, \<open>x=5\<close>, \<open>x=TRUE\<close>, \<open>x=foo\<close> and \<open>x=a=b\<close>.
\<close>

theorem parameter_coercion_witness:
  "send (buildRequest [''getPeers'', ''x'']) = (send (buildRequest [''getPeers'']))(''x'' \<mapsto> GoBool True) \<and>
   send (buildRequest [''getPeers'', ''x=5'']) = (send (buildRequest [''getPeers'']))(''x'' \<mapsto> GoInt 5) \<and>
   send (buildRequest [''getPeers'', ''x=TRUE'']) = (send (buildRequest [''getPeers'']))(''x'' \<mapsto> GoBool True) \<and>
   send (buildRequest [''getPeers'', ''x=foo'']) = (send (buildRequest [''getPeers'']))(''x'' \<mapsto> GoString ''foo'') \<and>
   send (buildRequest [''getPeers'', ''x=a=b'']) = (send (buildRequest [''getPeers'']))(''x'' \<mapsto> GoString ''a=b'')"
proof -
  have a5: "Atoi ''5'' = Some 5" by (simp add: Atoi_def isDigit_def decimal_def digitVal_def)
  have aT: "Atoi ''TRUE'' = None" by (simp add: Atoi_def isDigit_def)
  have lT: "map lowerByte ''TRUE'' = ''true''" by code_simp
  have af: "Atoi ''foo'' = None" by (simp add: Atoi_def isDigit_def)
  have lf: "map lowerByte ''foo'' = ''foo''" by code_simp
  note pc = parameter_coercion [where name = "''getPeers''" and pre = "[]"]
  have "send (buildRequest [''getPeers'', ''x'']) =
      (send (buildRequest [''getPeers'']))(''x'' \<mapsto> GoBool True)"
    using pc [of "''x''", THEN conjunct1] by simp
  moreover have "send (buildRequest [''getPeers'', ''x=5'']) =
      (send (buildRequest [''getPeers'']))(''x'' \<mapsto> GoInt 5)"
    using pc [of "''x=5''", THEN conjunct2, THEN conjunct1, rule_format, of "''x''" "''5''"] a5
    by simp
  moreover have "send (buildRequest [''getPeers'', ''x=TRUE'']) =
      (send (buildRequest [''getPeers'']))(''x'' \<mapsto> GoBool True)"
    using pc [of "''x=TRUE''", THEN conjunct2, THEN conjunct1, rule_format, of "''x''" "''TRUE''"] aT lT
    by simp
  moreover have "send (buildRequest [''getPeers'', ''x=foo'']) =
      (send (buildRequest [''getPeers'']))(''x'' \<mapsto> GoString ''foo'')"
    using pc [of "''x=foo''", THEN conjunct2, THEN conjunct1, rule_format, of "''x''" "''foo''"] af lf
    by simp
  moreover have "send (buildRequest [''getPeers'', ''x=a=b'']) =
      (send (buildRequest [''getPeers'']))(''x'' \<mapsto> GoString ''a=b'')"
    using pc [of "''x=a=b''", THEN conjunct2, THEN conjunct2, rule_format, of "''x''" "''a=b''"]
    by simp
  ultimately show ?thesis by blast
qed




text \<open>
  Claim C9. A later argument with the key \<open>request\<close> overwrites the slot of the command
  name: after the loop the key \<open>request\<close> holds the coerced value of the last such
  argument, whatever the first argument was.
\<close>

theorem request_key_overwritten:
  assumes "spec_key a = ''request''" and "\<forall>x \<in> set post. spec_key x \<noteq> ''request''"
  shows "send (buildRequest (name # pre @ a # post)) ''request'' = Some (spec_value a)"
proof -
  have "send (buildRequest (name # pre @ a # post)) =
      foldl (\<lambda>m a. m(spec_key a \<mapsto> spec_value a))
        (send (argStep 0 name \<lparr>send = Map.empty, logged = []\<rparr>)) (pre @ a # post)"
    by (simp add: buildRequest_def argLoop_send)
  then show ?thesis
    using assms(1) foldl_upd_last [OF assms(2)] by simp
qed

theorem request_key_overwritten_witness:
  "spec_key ''request=foo'' = ''request'' \<and> spec_key ''y'' \<noteq> ''request'' \<and>
   send (buildRequest [''getPeers'', ''x'', ''request=foo'', ''y'']) ''request'' = Some (GoString ''foo'')"
proof -
  have af: "Atoi ''foo'' = None" by (simp add: Atoi_def isDigit_def)
  have lf: "map lowerByte ''foo'' = ''foo''" by code_simp
  have h1: "spec_key ''request=foo'' = ''request''" by (simp add: spec_key_def)
  have h2: "\<forall>x \<in> set [''y'']. spec_key x \<noteq> ''request''" by (simp add: spec_key_def)
  have v: "spec_value ''request=foo'' = GoString ''foo''"
    by (simp add: spec_value_def spec_rest_def af lf)
  from request_key_overwritten [OF h1 h2, of "''getPeers''" "[''x'']"] h1 h2 v
  show ?thesis by simp
qed

subsection \<open>The response\<close>

lemma runBody_sent:
  assumes "requestSent W"
  shows "\<exists>lg. runBody P W = receive P W lg"
proof -
  obtain lg0 r where se: "setEndpoint W = (lg0, r)" by (cases "setEndpoint W")
  with assms obtain ep where r: "r = Inr ep" by (cases r) (auto simp: requestSent_def)
  obtain lg c where co: "connect W ep = (lg, c)" by (cases "connect W ep")
  from assms se r co have c: "c = None" by (simp add: requestSent_def)
  let ?b = "argLoop 0 (args (parsed W)) \<lparr>send = Map.empty, logged = lg0 @ lg @ [''Connected'']\<rparr>"
  have "send ?b = send (buildRequest (args (parsed W)))"
    unfolding buildRequest_def by (rule argLoop_send_cong) simp
  with assms se r co have enc: "Encode W (send ?b) = None" by (simp add: requestSent_def)
  from assms have "\<not> ver (parsed W)" and "args (parsed W) \<noteq> []"
    by (simp_all add: requestSent_def)
  with se r co c enc have "runBody P W = receive P W (logged ?b @ [''Request sent''])"
    by (simp add: runBody_def Let_def)
  then show ?thesis ..
qed

lemma Println2: "Println [a, b] = a @ '' '' @ b @ nl"
  by (simp add: Println_def)

lemma Println1: "Println [a] = a @ nl"
  by (simp add: Println_def)

lemma requestSent_example: "as \<noteq> [] \<Longrightarrow> requestSent (exampleWorld as d)"
  by (simp add: requestSent_def exampleWorld_def connect_def lowerByte_def)

lemma handleAll_returns_record:
  assumes "handleAll P recv v = (out, Inr u)"
  shows "\<exists>res. assertRecord (index recv ''response'') = Inr res"
proof (cases "assertRecord (index recv ''response'')")
  case (Inl p)
  with assms show ?thesis
    by (simp add: handleAll_def raise_def split: sum.splits)
next
  case (Inr res)
  then show ?thesis by simp
qed

text \<open>
  Claim C1 says that a failure of the decoder is reported and that the process exits with
  a code that is not zero. The code does neither. When \<^verbatim>\<open>decoder.Decode\<close> fails, line
  134 writes the error to \<^verbatim>\<open>logger\<close>, whose buffer is printed only by the deferred function
  after a panic; \<^verbatim>\<open>recv\<close> is empty, so the test of line 137 fails and \<^verbatim>\<open>run\<close> returns 0
  with nothing printed. Every other failure after the request was sent returns 1 (lines
  113, 117 and 121).
\<close>

theorem decode_failure_exit_zero:
  assumes "requestSent W" and "Decode W = Inl err"
  shows "run P W = \<lparr>printed = [], exitCode = 0\<rparr>"
proof -
  from runBody_sent [OF assms(1)] obtain lg where "runBody P W = receive P W lg" ..
  with assms(2) show ?thesis
    by (simp add: run_def receive_def finalStatus_def)
qed

theorem decode_failure_exit_zero_witness:
  "requestSent (exampleWorld [''getPeers''] (Inl ''EOF'')) \<and>
   Decode (exampleWorld [''getPeers''] (Inl ''EOF'')) = Inl ''EOF'' \<and>
   run examplePlatform (exampleWorld [''getPeers''] (Inl ''EOF'')) = \<lparr>printed = [], exitCode = 0\<rparr>"
proof -
  have s: "requestSent (exampleWorld [''getPeers''] (Inl ''EOF''))"
    by (rule requestSent_example) simp
  have d: "Decode (exampleWorld [''getPeers''] (Inl ''EOF'')) = Inl ''EOF''"
    by (simp add: exampleWorld_def)
  from decode_failure_exit_zero [OF s d] s d show ?thesis by simp
qed

text \<open>
  Claim C5. When the status of the decoded response is \<open>error\<close>, \<^verbatim>\<open>run\<close> prints one line
  and exits with 1; no formatter has run, for nothing else is printed. The line carries
  the value of the field \<open>error\<close> when the response has one, as \<^verbatim>\<open>Println\<close> shows it (a
  text as it is), and else the fixed text of line 111.
\<close>

theorem error_status:
  assumes "requestSent W" and "Decode W = Inr recv" and "index recv ''status'' = Text ''error''"
  shows "run P W =
    \<lparr>printed =
       (case map_of recv ''error'' of
          Some err \<Rightarrow> ''Admin socket returned an error: '' @ Sprint P err @ nl
        | None \<Rightarrow> ''Admin socket returned an error but didn't specify any error text'' @ nl),
     exitCode = 1\<rparr>"
proof -
  from runBody_sent [OF assms(1)] obtain lg where "runBody P W = receive P W lg" ..
  with assms(2,3) show ?thesis
    by (simp add: run_def receive_def Println1 Println2 split: option.splits)
qed

theorem error_status_witness:
  "requestSent (exampleWorld [''getPeers'']
     (Inr [(''status'', Text ''error''), (''error'', Text ''disabled'')])) \<and>
   index [(''status'', Text ''error''), (''error'', Text ''disabled'')] ''status'' = Text ''error'' \<and>
   run examplePlatform (exampleWorld [''getPeers'']
     (Inr [(''status'', Text ''error''), (''error'', Text ''disabled'')])) =
     \<lparr>printed = ''Admin socket returned an error: disabled'' @ nl, exitCode = 1\<rparr>"
proof -
  let ?recv = "[(''status'', Text ''error''), (''error'', Text ''disabled'')]"
  have s: "requestSent (exampleWorld [''getPeers''] (Inr ?recv))"
    by (rule requestSent_example) simp
  have d: "Decode (exampleWorld [''getPeers''] (Inr ?recv)) = Inr ?recv"
    by (simp add: exampleWorld_def)
  have i: "index ?recv ''status'' = Text ''error''" by (simp add: index_def)
  from error_status [OF s d i, of examplePlatform] s i show ?thesis by simp
qed

text \<open>
  Claim C6. When the status is not \<open>error\<close> and the field \<open>request\<close> or the field
  \<open>response\<close> is missing, \<^verbatim>\<open>run\<close> prints the line of line 116 or of line 120, which is
  not a line of the error status, and nothing else, and exits with 1.
\<close>

theorem malformed_response:
  assumes "requestSent W" and "Decode W = Inr recv"
    and "index recv ''status'' \<noteq> Text ''error''"
    and "map_of recv ''request'' = None \<or> map_of recv ''response'' = None"
  shows "run P W =
    \<lparr>printed =
       (if map_of recv ''request'' = None
        then ''Missing request in response (malformed response?)'' @ nl
        else ''Missing response body (malformed response?)'' @ nl),
     exitCode = 1\<rparr> \<and>
    \<not> HasPrefix (printed (run P W)) ''Admin socket returned an error''"
proof -
  from runBody_sent [OF assms(1)] obtain lg where "runBody P W = receive P W lg" ..
  with assms(2,3,4) show ?thesis
    by (auto simp: run_def receive_def Println1 HasPrefix_def)
qed

theorem malformed_response_witness:
  "requestSent (exampleWorld [''getPeers''] (Inr [(''status'', Text ''success'')])) \<and>
   index [(''status'', Text ''success'')] ''status'' \<noteq> Text ''error'' \<and>
   map_of [(''status'', Text ''success'')] ''request'' = None \<and>
   run examplePlatform (exampleWorld [''getPeers''] (Inr [(''status'', Text ''success'')])) =
     \<lparr>printed = ''Missing request in response (malformed response?)'' @ nl, exitCode = 1\<rparr> \<and>
   run examplePlatform (exampleWorld [''getPeers'']
       (Inr [(''status'', Text ''success''), (''request'', Record [])])) =
     \<lparr>printed = ''Missing response body (malformed response?)'' @ nl, exitCode = 1\<rparr>"
proof -
  let ?recv = "[(''status'', Text ''success'')]"
  let ?recv2 = "[(''status'', Text ''success''), (''request'', Record [])]"
  have s: "requestSent (exampleWorld [''getPeers''] (Inr ?recv))"
    by (rule requestSent_example) simp
  have d: "Decode (exampleWorld [''getPeers''] (Inr ?recv)) = Inr ?recv"
    by (simp add: exampleWorld_def)
  have i: "index ?recv ''status'' \<noteq> Text ''error''" by (simp add: index_def)
  have m: "map_of ?recv ''request'' = None \<or> map_of ?recv ''response'' = None" by simp
  have s2: "requestSent (exampleWorld [''getPeers''] (Inr ?recv2))"
    by (rule requestSent_example) simp
  have d2: "Decode (exampleWorld [''getPeers''] (Inr ?recv2)) = Inr ?recv2"
    by (simp add: exampleWorld_def)
  have i2: "index ?recv2 ''status'' \<noteq> Text ''error''" by (simp add: index_def)
  have m2: "map_of ?recv2 ''request'' = None \<or> map_of ?recv2 ''response'' = None" by simp
  from malformed_response [OF s d i m, of examplePlatform]
    malformed_response [OF s2 d2 i2 m2, of examplePlatform] s i
  show ?thesis by simp
qed

text \<open>
  Claim C10, as the code has it. With \<^verbatim>\<open>injson\<close> off, for a response with the fields
  \<open>request\<close> and \<open>response\<close> whose status is neither \<open>error\<close> nor \<open>success\<close>, when
  \<^verbatim>\<open>handleAll\<close> returns, what it printed is the output, and the exit code is 1 when the
  response has a status and 0 when it has none.
\<close>

theorem other_status:
  assumes "requestSent W" and "\<not> injson (parsed W)" and "Decode W = Inr recv"
    and "map_of recv ''request'' \<noteq> None" and "map_of recv ''response'' \<noteq> None"
    and "index recv ''status'' \<noteq> Text ''error''"
    and "index recv ''status'' \<noteq> Text ''success''"
    and "handleAll P recv (verbose (parsed W)) = (out, Inr ())"
  shows "run P W = \<lparr>printed = out, exitCode = (if map_of recv ''status'' = None then 0 else 1)\<rparr>"
proof -
  from runBody_sent [OF assms(1)] obtain lg where rb: "runBody P W = receive P W lg" ..
  from handleAll_returns_record [OF assms(8)] obtain res
    where res: "assertRecord (index recv ''response'') = Inr res" ..
  have fs: "finalStatus recv = (if map_of recv ''status'' = None then 0 else 1)"
    using assms(7) by (auto simp: finalStatus_def index_def split: option.splits)
  from rb res assms(2-6,8) fs show ?thesis
    by (simp add: run_def receive_def)
qed

theorem other_status_witness:
  "requestSent (exampleWorld [''dot'']
     (Inr [(''status'', Text ''warning''), (''request'', Record [(''request'', Text ''dot'')]),
           (''response'', Record [(''dot'', Text ''digraph'')])])) \<and>
   run examplePlatform (exampleWorld [''dot'']
     (Inr [(''status'', Text ''warning''), (''request'', Record [(''request'', Text ''dot'')]),
           (''response'', Record [(''dot'', Text ''digraph'')])])) =
     \<lparr>printed = ''digraph'' @ nl, exitCode = 1\<rparr> \<and>
   run examplePlatform (exampleWorld [''dot'']
     (Inr [(''request'', Record [(''request'', Text ''dot'')]),
           (''response'', Record [(''dot'', Text ''digraph'')])])) =
     \<lparr>printed = ''digraph'' @ nl, exitCode = 0\<rparr>"
proof -
  let ?body = "[(''request'', Record [(''request'', Text ''dot'')]),
                (''response'', Record [(''dot'', Text ''digraph'')])]"
  let ?recv = "(''status'', Text ''warning'') # ?body"
  have s: "requestSent (exampleWorld [''dot''] (Inr ?recv))"
    by (rule requestSent_example) simp
  have s': "requestSent (exampleWorld [''dot''] (Inr ?body))"
    by (rule requestSent_example) simp
  have h: "handleAll examplePlatform ?recv (verbose (parsed (exampleWorld [''dot''] (Inr ?recv)))) =
      (''digraph'' @ nl, Inr ())"
    by (simp add: handleAll_def assertRecord_def assertText_def index_def handleDot_def
        emit_def Println1 lowerByte_def)
  have h': "handleAll examplePlatform ?body (verbose (parsed (exampleWorld [''dot''] (Inr ?body)))) =
      (''digraph'' @ nl, Inr ())"
    by (simp add: handleAll_def assertRecord_def assertText_def index_def handleDot_def
        emit_def Println1 lowerByte_def)
  have "run examplePlatform (exampleWorld [''dot''] (Inr ?recv)) =
      \<lparr>printed = ''digraph'' @ nl, exitCode = 1\<rparr>"
    using other_status [OF s _ _ _ _ _ _ h] by (simp add: exampleWorld_def index_def)
  moreover have "run examplePlatform (exampleWorld [''dot''] (Inr ?body)) =
      \<lparr>printed = ''digraph'' @ nl, exitCode = 0\<rparr>"
    using other_status [OF s' _ _ _ _ _ _ h'] by (simp add: exampleWorld_def index_def)
  ultimately show ?thesis using s by simp
qed

text \<open>
  Claim C10 as it is written fails where the formatter panics: here the status is
  \<open>warning\<close> and the entry below \<open>self\<close> is a text, the assertion of line 290 panics, the
  deferred function prints the log, and \<^verbatim>\<open>run\<close> returns 0.
\<close>

theorem other_status_counterexample:
  "run examplePlatform (exampleWorld [''getself'']
     (Inr [(''status'', Text ''warning''), (''request'', Record [(''request'', Text ''getself'')]),
           (''response'', Record [(''self'', Record [(''200:1::1'', Text ''node'')])])])) =
   \<lparr>printed = ''Connecting to TCP socket localhost:9001'' @ nl @ ''Connected'' @ nl @
        ''Sending request: getself'' @ nl @ ''Request sent'' @ nl @ ''Response received'' @ nl @
        ''Fatal error: interface conversion'' @ nl, exitCode = 0\<rparr>"
  by (simp add: run_def runBody_def receive_def exampleWorld_def connect_def argStep_def
      HasPrefix_def printLog_def examplePlatform_def handleAll_def assertRecord_def
      assertText_def index_def handleGetSelf_def selfEntry_def raise_def lowerByte_def
      enumerate_eq_zip nl_def)

subsection \<open>The formatters and their accessors\<close>

lemma forEach_returns:
  "snd (forEach f xs) = Inr () \<longleftrightarrow> list_all (\<lambda>x. snd (f x) = Inr ()) xs"
proof (induction xs)
  case Nil
  then show ?case by (simp add: emit_def)
next
  case (Cons x xs)
  obtain o1 r1 where fx: "f x = (o1, r1)" by (cases "f x")
  obtain o2 r2 where fxs: "forEach f xs = (o2, r2)" by (cases "forEach f xs")
  from Cons fx fxs show ?case by (cases r1) auto
qed

lemma selfEntry_returns: "snd (selfEntry vb kv) = Inr () \<longleftrightarrow> (\<exists>m. snd kv = Record m)"
  by (cases "snd kv") (simp_all add: selfEntry_def assertRecord_def raise_def emit_def)

lemma runBody_sentLog:
  assumes "requestSent W"
  shows "runBody P W = receive P W (sentLog W)"
proof -
  obtain lg0 r where se: "setEndpoint W = (lg0, r)" by (cases "setEndpoint W")
  with assms obtain ep where r: "r = Inr ep" by (cases r) (auto simp: requestSent_def)
  obtain lg c where co: "connect W ep = (lg, c)" by (cases "connect W ep")
  from assms se r co have c: "c = None" by (simp add: requestSent_def)
  let ?b = "argLoop 0 (args (parsed W)) \<lparr>send = Map.empty, logged = lg0 @ lg @ [''Connected'']\<rparr>"
  have "send ?b = send (buildRequest (args (parsed W)))"
    unfolding buildRequest_def by (rule argLoop_send_cong) simp
  with assms se r co have enc: "Encode W (send ?b) = None" by (simp add: requestSent_def)
  from assms have "\<not> ver (parsed W)" and "args (parsed W) \<noteq> []"
    by (simp_all add: requestSent_def)
  with se r co c enc show ?thesis
    by (simp add: runBody_def sentLog_def Let_def)
qed

lemma textLine_spec: "textLine label v = spec_line (spec_asText v) (\<lambda>s. Println [label, s])"
  by (cases v) (simp_all add: textLine_def spec_line_def spec_asText_def)

lemma knownLine_spec:
  "knownLine label v = spec_line (spec_known (spec_asText v)) (\<lambda>s. Println [label, s])"
  by (cases v) (simp_all add: knownLine_def spec_line_def spec_asText_def spec_known_def)

lemma countLine_spec:
  "countLine P label unit v =
     spec_line (spec_asNumber v) (\<lambda>f. label @ showNat (toUint P f) @ unit @ nl)"
  by (cases v) (simp_all add: countLine_def spec_line_def spec_asNumber_def)

lemma selfEntry_spec:
  "selfEntry vb (k, Record m) =
     (spec_line (spec_known (spec_asText (index m ''build_name'')))
        (\<lambda>s. Println [''Build name:'', s]) @
      spec_line (spec_known (spec_asText (index m ''build_version'')))
        (\<lambda>s. Println [''Build version:'', s]) @
      Println [''IPv6 address:'', k] @
      spec_line (spec_asText (index m ''subnet'')) (\<lambda>s. Println [''IPv6 subnet:'', s]) @
      spec_line (spec_asText (index m ''key'')) (\<lambda>s. Println [''Public key:'', s]) @
      spec_line (spec_asText (index m ''coords'')) (\<lambda>s. Println [''Coords:'', s]) @
      (if vb
       then spec_line (spec_asText (index m ''node_id'')) (\<lambda>s. Println [''Node ID:'', s]) @
            spec_line (spec_asText (index m ''box_pub_key''))
              (\<lambda>s. Println [''Public encryption key:'', s]) @
            spec_line (spec_asText (index m ''box_sig_key''))
              (\<lambda>s. Println [''Public signing key:'', s])
       else []), Inr ())"
  by (simp add: selfEntry_def assertRecord_def emit_def textLine_spec knownLine_spec)

lemma tunTapEntry_spec:
  "tunTapEntry P (k, Record m) =
     (Println [''Interface name:'', k] @
      spec_line (spec_asNumber (index m ''mtu''))
        (\<lambda>mtu. Println [''Interface MTU:'', fmtFloat P mtu]) @
      spec_line (spec_asBool (index m ''tap_mode''))
        (\<lambda>tap_mode. Println [''TAP mode:'', showBool tap_mode]), Inr ())"
proof -
  have 1: "(case index m ''mtu'' of
              Number mtu \<Rightarrow> Println [''Interface MTU:'', fmtFloat P mtu] | _ \<Rightarrow> []) =
        spec_line (spec_asNumber (index m ''mtu''))
          (\<lambda>mtu. Println [''Interface MTU:'', fmtFloat P mtu])"
    by (cases "index m ''mtu''") (simp_all add: spec_line_def spec_asNumber_def)
  have 2: "(case index m ''tap_mode'' of
              Bool tap_mode \<Rightarrow> Println [''TAP mode:'', showBool tap_mode] | _ \<Rightarrow> []) =
        spec_line (spec_asBool (index m ''tap_mode''))
          (\<lambda>tap_mode. Println [''TAP mode:'', showBool tap_mode])"
    by (cases "index m ''tap_mode''") (simp_all add: spec_line_def spec_asBool_def)
  show ?thesis
    by (simp add: tunTapEntry_def assertRecord_def emit_def 1 2)
qed

lemma tunTapEntry_returns: "snd (tunTapEntry P kv) = Inr () \<longleftrightarrow> (\<exists>m. snd kv = Record m)"
  by (cases "snd kv") (simp_all add: tunTapEntry_def assertRecord_def raise_def emit_def)

lemma handleGetRoutes_spec:
  "handleGetRoutes P res =
     ((case spec_asRecord (index res ''routes'') of
         None \<Rightarrow> Println [''No routes found'']
       | Some routes \<Rightarrow>
           if routes = [] then Println [''No routes found'']
           else Println [''Routes:''] @
                concat (map (\<lambda>kv. spec_line (spec_asText (snd kv))
                                     (\<lambda>pv. Println [''-'', fst kv, '' via '', pv])) routes)),
      Inr ())"
proof -
  have 1: "(case snd kv of Text pv \<Rightarrow> Println [''-'', fst kv, '' via '', pv] | _ \<Rightarrow> []) =
      spec_line (spec_asText (snd kv)) (\<lambda>pv. Println [''-'', fst kv, '' via '', pv])" for kv
    by (cases "snd kv") (simp_all add: spec_line_def spec_asText_def)
  show ?thesis
    by (cases "index res ''routes''")
      (simp_all add: handleGetRoutes_def spec_asRecord_def emit_def 1)
qed

lemma handleGetTunnelRouting_spec:
  "handleGetTunnelRouting P res =
     (Println [if spec_asBool (index res ''enabled'') = Some True
               then ''Tunnel routing is enabled'' else ''Tunnel routing is disabled''], Inr ())"
  by (cases "index res ''enabled''")
    (simp_all add: handleGetTunnelRouting_def spec_asBool_def emit_def)

lemma handleGetSwitchQueues_spec:
  assumes "index res ''switchqueues'' = Record v"
  shows "handleGetSwitchQueues P res =
     (let maximumqueuesize =
            (case spec_asNumber (index v ''maximum_queues_size'') of
               Some m \<Rightarrow> m | None \<Rightarrow> 4194304);
          queues =
            (case spec_asSequence (index v ''queues'') of
               Some qs \<Rightarrow> queueSection P maximumqueuesize (Sequence qs)
             | None \<Rightarrow> ([], Inr ()))
      in (spec_line (spec_asNumber (index v ''queues_count''))
            (\<lambda>f. ''Active queue count: '' @ showNat (toUint P f) @ '' queues'' @ nl) @
          spec_line (spec_asNumber (index v ''queues_size''))
            (\<lambda>f. ''Active queue size: '' @ showNat (toUint P f) @ '' bytes'' @ nl) @
          spec_line (spec_asNumber (index v ''highest_queues_count''))
            (\<lambda>f. ''Highest queue count: '' @ showNat (toUint P f) @ '' queues'' @ nl) @
          spec_line (spec_asNumber (index v ''highest_queues_size''))
            (\<lambda>f. ''Highest queue size: '' @ showNat (toUint P f) @ '' bytes'' @ nl) @
          spec_line (spec_asNumber (index v ''maximum_queues_size''))
            (\<lambda>f. ''Maximum queue size: '' @ showNat (toUint P f) @ '' bytes'' @ nl) @
          fst queues, snd queues))"
proof -
  have m: "(case index v ''maximum_queues_size'' of Number m \<Rightarrow> m | _ \<Rightarrow> 4194304) =
      (case spec_asNumber (index v ''maximum_queues_size'') of Some m \<Rightarrow> m | None \<Rightarrow> 4194304)"
    by (cases "index v ''maximum_queues_size''") (simp_all add: spec_asNumber_def)
  have q: "queueSection P mq (index v ''queues'') =
      (case spec_asSequence (index v ''queues'') of
         Some qs \<Rightarrow> queueSection P mq (Sequence qs) | None \<Rightarrow> ([], Inr ()))" for mq
    by (cases "index v ''queues''") (simp_all add: spec_asSequence_def queueSection_def emit_def)
  have a: "andThen (emit x) y = (x @ fst y, snd y)" for x y
    by (cases y) (simp add: emit_def)
  show ?thesis
    unfolding handleGetSwitchQueues_def assms assertRecord_def
    by (simp only: val.case sum.case Let_def m a countLine_spec q [symmetric] append_assoc)
qed

lemma run_recovers:
  assumes "requestSent W" and "Decode W = Inr recv" and "index recv ''status'' \<noteq> Text ''error''"
    and "map_of recv ''request'' \<noteq> None" and "map_of recv ''response'' \<noteq> None"
    and "\<not> injson (parsed W)"
    and "handleAll P recv (verbose (parsed W)) = (out, Inl p)"
  shows "run P W =
     \<lparr>printed = out @ printLog P (sentLog W @
                   [''Response received'', ''Fatal error: '' @ panicText P p]),
      exitCode = 0\<rparr>"
proof (cases "assertRecord (index recv ''response'')")
  case (Inl q)
  then have "handleAll P recv (verbose (parsed W)) = ([], Inl InterfaceConversion)"
    by (cases "index recv ''response''")
      (simp_all add: handleAll_def assertRecord_def raise_def split: sum.splits val.splits)
  with assms(7) have o: "out = []" and p: "p = InterfaceConversion" by simp_all
  from Inl have q: "q = InterfaceConversion"
    by (cases "index recv ''response''") (simp_all add: assertRecord_def)
  from assms(2-5) Inl q have "receive P W (sentLog W) =
      (\<lparr>stdout = [], logbuffer = sentLog W @ [''Response received'']\<rparr>, Inl InterfaceConversion)"
    by (simp add: receive_def Let_def)
  with runBody_sentLog [OF assms(1)] o p show ?thesis
    by (simp add: run_def)
next
  case (Inr res)
  with assms(2-7) have "receive P W (sentLog W) =
      (\<lparr>stdout = out, logbuffer = sentLog W @ [''Response received'']\<rparr>, Inl p)"
    by (simp add: receive_def Let_def)
  with runBody_sentLog [OF assms(1)] show ?thesis
    by (simp add: run_def)
qed

text \<open>
  Claim C2, as the code has it. Every field that a formatter reads with a checked
  assertion (the two-result form) fails safely: the eight fields of an entry of
  \<^verbatim>\<open>handleGetSelf\<close>, \<open>mtu\<close> and \<open>tap_mode\<close> of \<^verbatim>\<open>handleGetAndSetTunTap\<close>, the five
  counters and \<open>queues\<close> of \<^verbatim>\<open>handleGetSwitchQueues\<close>, \<open>routes\<close> and each of its entries
  in \<^verbatim>\<open>handleGetRoutes\<close>, and \<open>enabled\<close> in \<^verbatim>\<open>handleGetTunnelRouting\<close>. What each of
  these formatters prints is what the safe accessors of the specification give: every
  line stands or falls with its own field alone, a field that is absent or has another
  tag only has its line left out (\<^verbatim>\<open>handleGetRoutes\<close> and \<^verbatim>\<open>handleGetTunnelRouting\<close>
  print their line for nothing found), and the formatter returns. The containers are read
  with unchecked assertions: \<^verbatim>\<open>handleGetSelf\<close> returns if and only if \<open>self\<close> is a record
  whose entries are records, \<^verbatim>\<open>handleGetAndSetTunTap\<close> if and only if every entry is a
  record, \<^verbatim>\<open>handleGetSwitchQueues\<close> only if \<open>switchqueues\<close> is a record. Whenever a
  formatter panics, \<^verbatim>\<open>run\<close> recovers: the process has printed what the formatter had
  printed, prints the log with the panic as its last line, and exits with the code 0.
\<close>

theorem checked_accessors:
  "selfEntry vb (k, Record m) =
     (spec_line (spec_known (spec_asText (index m ''build_name'')))
        (\<lambda>s. Println [''Build name:'', s]) @
      spec_line (spec_known (spec_asText (index m ''build_version'')))
        (\<lambda>s. Println [''Build version:'', s]) @
      Println [''IPv6 address:'', k] @
      spec_line (spec_asText (index m ''subnet'')) (\<lambda>s. Println [''IPv6 subnet:'', s]) @
      spec_line (spec_asText (index m ''key'')) (\<lambda>s. Println [''Public key:'', s]) @
      spec_line (spec_asText (index m ''coords'')) (\<lambda>s. Println [''Coords:'', s]) @
      (if vb
       then spec_line (spec_asText (index m ''node_id'')) (\<lambda>s. Println [''Node ID:'', s]) @
            spec_line (spec_asText (index m ''box_pub_key''))
              (\<lambda>s. Println [''Public encryption key:'', s]) @
            spec_line (spec_asText (index m ''box_sig_key''))
              (\<lambda>s. Println [''Public signing key:'', s])
       else []), Inr ()) \<and>
   tunTapEntry P (k, Record m) =
     (Println [''Interface name:'', k] @
      spec_line (spec_asNumber (index m ''mtu''))
        (\<lambda>mtu. Println [''Interface MTU:'', fmtFloat P mtu]) @
      spec_line (spec_asBool (index m ''tap_mode''))
        (\<lambda>tap_mode. Println [''TAP mode:'', showBool tap_mode]), Inr ()) \<and>
   (index res ''switchqueues'' = Record v \<longrightarrow>
    handleGetSwitchQueues P res =
     (let maximumqueuesize =
            (case spec_asNumber (index v ''maximum_queues_size'') of
               Some m \<Rightarrow> m | None \<Rightarrow> 4194304);
          queues =
            (case spec_asSequence (index v ''queues'') of
               Some qs \<Rightarrow> queueSection P maximumqueuesize (Sequence qs)
             | None \<Rightarrow> ([], Inr ()))
      in (spec_line (spec_asNumber (index v ''queues_count''))
            (\<lambda>f. ''Active queue count: '' @ showNat (toUint P f) @ '' queues'' @ nl) @
          spec_line (spec_asNumber (index v ''queues_size''))
            (\<lambda>f. ''Active queue size: '' @ showNat (toUint P f) @ '' bytes'' @ nl) @
          spec_line (spec_asNumber (index v ''highest_queues_count''))
            (\<lambda>f. ''Highest queue count: '' @ showNat (toUint P f) @ '' queues'' @ nl) @
          spec_line (spec_asNumber (index v ''highest_queues_size''))
            (\<lambda>f. ''Highest queue size: '' @ showNat (toUint P f) @ '' bytes'' @ nl) @
          spec_line (spec_asNumber (index v ''maximum_queues_size''))
            (\<lambda>f. ''Maximum queue size: '' @ showNat (toUint P f) @ '' bytes'' @ nl) @
          fst queues, snd queues))) \<and>
   handleGetRoutes P res =
     ((case spec_asRecord (index res ''routes'') of
         None \<Rightarrow> Println [''No routes found'']
       | Some routes \<Rightarrow>
           if routes = [] then Println [''No routes found'']
           else Println [''Routes:''] @
                concat (map (\<lambda>kv. spec_line (spec_asText (snd kv))
                                     (\<lambda>pv. Println [''-'', fst kv, '' via '', pv])) routes)),
      Inr ()) \<and>
   handleGetTunnelRouting P res =
     (Println [if spec_asBool (index res ''enabled'') = Some True
               then ''Tunnel routing is enabled'' else ''Tunnel routing is disabled''], Inr ()) \<and>
   (snd (handleGetSelf P res vb) = Inr () \<longleftrightarrow>
      (\<exists>selfs. index res ''self'' = Record selfs \<and> list_all (\<lambda>kv. \<exists>m. snd kv = Record m) selfs)) \<and>
   (snd (handleGetAndSetTunTap P res) = Inr () \<longleftrightarrow> list_all (\<lambda>kv. \<exists>m. snd kv = Record m) res) \<and>
   (snd (handleGetSwitchQueues P res) = Inr () \<longrightarrow> (\<exists>v. index res ''switchqueues'' = Record v)) \<and>
   (requestSent W \<longrightarrow> Decode W = Inr recv \<longrightarrow> index recv ''status'' \<noteq> Text ''error'' \<longrightarrow>
    map_of recv ''request'' \<noteq> None \<longrightarrow> map_of recv ''response'' \<noteq> None \<longrightarrow>
    \<not> injson (parsed W) \<longrightarrow> handleAll P recv (verbose (parsed W)) = (out, Inl p) \<longrightarrow>
    run P W =
      \<lparr>printed = out @ printLog P (sentLog W @
                    [''Response received'', ''Fatal error: '' @ panicText P p]),
       exitCode = 0\<rparr>)"
proof (intro conjI impI)
  show "snd (handleGetSelf P res vb) = Inr () \<longleftrightarrow>
      (\<exists>selfs. index res ''self'' = Record selfs \<and> list_all (\<lambda>kv. \<exists>m. snd kv = Record m) selfs)"
    by (cases "index res ''self''")
      (simp_all add: handleGetSelf_def assertRecord_def raise_def forEach_returns selfEntry_returns)
next
  show "snd (handleGetAndSetTunTap P res) = Inr () \<longleftrightarrow> list_all (\<lambda>kv. \<exists>m. snd kv = Record m) res"
    by (simp add: handleGetAndSetTunTap_def forEach_returns tunTapEntry_returns)
next
  assume "snd (handleGetSwitchQueues P res) = Inr ()"
  then show "\<exists>v. index res ''switchqueues'' = Record v"
    by (cases "index res ''switchqueues''")
      (simp_all add: handleGetSwitchQueues_def assertRecord_def raise_def)
next
  assume "requestSent W" and "Decode W = Inr recv" and "index recv ''status'' \<noteq> Text ''error''"
    and "map_of recv ''request'' \<noteq> None" and "map_of recv ''response'' \<noteq> None"
    and "\<not> injson (parsed W)"
    and "handleAll P recv (verbose (parsed W)) = (out, Inl p)"
  then show "run P W =
      \<lparr>printed = out @ printLog P (sentLog W @
                    [''Response received'', ''Fatal error: '' @ panicText P p]),
       exitCode = 0\<rparr>"
    by (rule run_recovers)
qed (rule selfEntry_spec tunTapEntry_spec handleGetSwitchQueues_spec handleGetRoutes_spec
      handleGetTunnelRouting_spec, assumption?)+

theorem checked_accessors_witness:
  "selfEntry False (''200:1::1'',
     Record [(''build_name'', Text ''ygg''), (''key'', Text ''ABCD''), (''coords'', Text ''[1 2]''),
             (''subnet'', Number 5)]) =
     (''Build name: ygg'' @ nl @ ''IPv6 address: 200:1::1'' @ nl @ ''Public key: ABCD'' @ nl @
      ''Coords: [1 2]'' @ nl, Inr ()) \<and>
   tunTapEntry examplePlatform (''tun0'', Record [(''mtu'', Text ''1500''), (''tap_mode'', Bool False)]) =
     (''Interface name: tun0'' @ nl @ ''TAP mode: false'' @ nl, Inr ()) \<and>
   handleGetSwitchQueues examplePlatform
     [(''switchqueues'', Record [(''queues_count'', Number 2), (''queues_size'', Text ''x''),
                                 (''queues'', Number 0)])] =
     (''Active queue count: 2 queues'' @ nl, Inr ()) \<and>
   handleGetRoutes examplePlatform [(''routes'', Record [(''a'', Text ''b''), (''c'', Number 1)])] =
     (''Routes:'' @ nl @ ''- a  via  b'' @ nl, Inr ()) \<and>
   handleGetTunnelRouting examplePlatform [(''enabled'', Text ''true'')] =
     (''Tunnel routing is disabled'' @ nl, Inr ()) \<and>
   run examplePlatform (exampleWorld [''gettuntap'']
     (Inr [(''status'', Text ''success''), (''request'', Record [(''request'', Text ''gettuntap'')]),
           (''response'', Record [(''tun0'', Number 5)])])) =
   \<lparr>printed = ''Interface name: tun0'' @ nl @
        ''Connecting to TCP socket localhost:9001'' @ nl @ ''Connected'' @ nl @
        ''Sending request: gettuntap'' @ nl @ ''Request sent'' @ nl @ ''Response received'' @ nl @
        ''Fatal error: interface conversion'' @ nl, exitCode = 0\<rparr>"
proof -
  let ?m = "[(''build_name'', Text ''ygg''), (''key'', Text ''ABCD''), (''coords'', Text ''[1 2]''),
             (''subnet'', Number 5)]"
  let ?tt = "[(''mtu'', Text ''1500''), (''tap_mode'', Bool False)]"
  let ?v = "[(''queues_count'', Number 2), (''queues_size'', Text ''x''), (''queues'', Number 0)]"
  let ?recv = "[(''status'', Text ''success''), (''request'', Record [(''request'', Text ''gettuntap'')]),
           (''response'', Record [(''tun0'', Number 5)])]"
  let ?W = "exampleWorld [''gettuntap''] (Inr ?recv)"
  have sl: "sentLog ?W = [''Connecting to TCP socket localhost:9001'', ''Connected'',
      ''Sending request: gettuntap'', ''Request sent'']"
    by (simp add: sentLog_def exampleWorld_def connect_def lowerByte_def argStep_def HasPrefix_def)
  have ha: "handleAll examplePlatform ?recv (verbose (parsed ?W)) =
      (''Interface name: tun0'' @ nl, Inl InterfaceConversion)"
    by (simp add: handleAll_def assertRecord_def assertText_def index_def lowerByte_def
        handleGetAndSetTunTap_def tunTapEntry_def emit_def raise_def Println2 exampleWorld_def)
  have rs: "requestSent ?W" by (rule requestSent_example) simp
  have dc: "Decode ?W = Inr ?recv" by (simp add: exampleWorld_def)
  have ij: "\<not> injson (parsed ?W)" by (simp add: exampleWorld_def)
  note c = checked_accessors [where P = examplePlatform and vb = False and k = "''200:1::1''"
      and m = ?m]
  have 1: "selfEntry False (''200:1::1'', Record ?m) =
     (''Build name: ygg'' @ nl @ ''IPv6 address: 200:1::1'' @ nl @ ''Public key: ABCD'' @ nl @
      ''Coords: [1 2]'' @ nl, Inr ())"
    using c [THEN conjunct1]
    by (simp add: index_def spec_line_def spec_asText_def spec_known_def Println2)
  have 2: "tunTapEntry examplePlatform (''tun0'', Record ?tt) =
     (''Interface name: tun0'' @ nl @ ''TAP mode: false'' @ nl, Inr ())"
    using checked_accessors [where P = examplePlatform and k = "''tun0''" and m = ?tt,
        THEN conjunct2, THEN conjunct1]
    by (simp add: index_def spec_line_def spec_asNumber_def spec_asBool_def Println2 showBool_def)
  have 3: "handleGetSwitchQueues examplePlatform [(''switchqueues'', Record ?v)] =
     (''Active queue count: 2 queues'' @ nl, Inr ())"
    using checked_accessors [where P = examplePlatform and res = "[(''switchqueues'', Record ?v)]"
        and v = ?v, THEN conjunct2, THEN conjunct2, THEN conjunct1]
    by (simp add: index_def spec_line_def spec_asNumber_def spec_asSequence_def toUint_def
        trunc_def showNat.simps)
  have 4: "handleGetRoutes examplePlatform [(''routes'', Record [(''a'', Text ''b''), (''c'', Number 1)])] =
     (''Routes:'' @ nl @ ''- a  via  b'' @ nl, Inr ())"
    using checked_accessors [where P = examplePlatform
        and res = "[(''routes'', Record [(''a'', Text ''b''), (''c'', Number 1)])]",
        THEN conjunct2, THEN conjunct2, THEN conjunct2, THEN conjunct1]
    by (simp add: index_def spec_line_def spec_asText_def spec_asRecord_def Println_def)
  have 5: "handleGetTunnelRouting examplePlatform [(''enabled'', Text ''true'')] =
     (''Tunnel routing is disabled'' @ nl, Inr ())"
    using checked_accessors [where P = examplePlatform and res = "[(''enabled'', Text ''true'')]",
        THEN conjunct2, THEN conjunct2, THEN conjunct2, THEN conjunct2, THEN conjunct1]
    by (simp add: index_def spec_asBool_def Println1)
  have 6: "run examplePlatform ?W =
   \<lparr>printed = ''Interface name: tun0'' @ nl @
        ''Connecting to TCP socket localhost:9001'' @ nl @ ''Connected'' @ nl @
        ''Sending request: gettuntap'' @ nl @ ''Request sent'' @ nl @ ''Response received'' @ nl @
        ''Fatal error: interface conversion'' @ nl, exitCode = 0\<rparr>"
    using checked_accessors [where P = examplePlatform and W = ?W and recv = ?recv
        and out = "''Interface name: tun0'' @ nl" and p = InterfaceConversion,
        THEN conjunct2, THEN conjunct2, THEN conjunct2, THEN conjunct2, THEN conjunct2,
        THEN conjunct2, THEN conjunct2, THEN conjunct2] rs dc ij ha
    by (simp add: sl index_def printLog_def examplePlatform_def enumerate_eq_zip nl_def)
  from 1 2 3 4 5 6 show ?thesis by (simp only: simp_thms)
qed

text \<open>
  Claim C2 as it is written fails: a response without \<open>self\<close> makes the assertion of
  line 289 panic, the formatter prints nothing, and \<^verbatim>\<open>run\<close> ends in its deferred function,
  which prints the log.
\<close>

theorem checked_accessors_counterexample:
  "handleGetSelf examplePlatform [] False = ([], Inl InterfaceConversion) \<and>
   run examplePlatform (exampleWorld [''getself'']
     (Inr [(''status'', Text ''success''), (''request'', Record [(''request'', Text ''getself'')]),
           (''response'', Record [])])) =
   \<lparr>printed = ''Connecting to TCP socket localhost:9001'' @ nl @ ''Connected'' @ nl @
        ''Sending request: getself'' @ nl @ ''Request sent'' @ nl @ ''Response received'' @ nl @
        ''Fatal error: interface conversion'' @ nl, exitCode = 0\<rparr>"
  by (simp add: run_def runBody_def receive_def exampleWorld_def connect_def argStep_def
      HasPrefix_def printLog_def examplePlatform_def handleAll_def assertRecord_def
      assertText_def index_def handleGetSelf_def selfEntry_def raise_def lowerByte_def
      enumerate_eq_zip nl_def)

subsection \<open>handleVariousInfo\<close>

lemma widen_mono: "mw k \<le> widen P slk mw kv k"
  by (simp add: widen_def Let_def)

lemma foldl_widen_mono: "mw k \<le> foldl (widen P slk) mw flds k"
proof (induction flds arbitrary: mw)
  case Nil
  then show ?case by simp
next
  case (Cons kv flds)
  have "mw k \<le> widen P slk mw kv k" by (rule widen_mono)
  also have "\<dots> \<le> foldl (widen P slk) (widen P slk mw kv) flds k" by (rule Cons.IH)
  finally show ?case by simp
qed

lemma discover_widths: "maxWidths (discover vb flds t) = maxWidths t"
  by (simp add: discover_def)

lemma discover_ordered: "keysOrdered (discover vb flds t)"
  by (simp add: discover_def)

lemma discover_kept: "keysOrdered t \<Longrightarrow> discover vb flds t = t"
  by (simp add: discover_def)

lemma measureRecord_facts:
  assumes "measureRecord P vb r t = Inr t1"
  shows "maxWidths t k \<le> maxWidths t1 k" and "keysOrdered t1"
    and "keysOrdered t \<Longrightarrow> keyOrder t1 = keyOrder t"
proof -
  from assms obtain flds where f: "assertRecord (snd r) = Inr flds"
    and t1: "t1 = (discover vb flds t)\<lparr>maxWidths := foldl (widen P (fst r)) (maxWidths (discover vb flds t)) flds\<rparr>"
    by (auto simp: measureRecord_def Let_def split: sum.splits)
  show "maxWidths t k \<le> maxWidths t1 k"
    using foldl_widen_mono [of "maxWidths t" k P "fst r" flds] by (simp add: t1 discover_widths)
  show "keysOrdered t1" by (simp add: t1 discover_ordered)
  show "keyOrder t1 = keyOrder t" if "keysOrdered t"
    using that by (simp add: t1 discover_kept)
qed

lemma measureLoop_facts:
  assumes "measureLoop P vb recs t = Inr t1"
  shows "maxWidths t k \<le> maxWidths t1 k"
    and "keysOrdered t \<Longrightarrow> keyOrder t1 = keyOrder t \<and> keysOrdered t1"
    and "recs \<noteq> [] \<Longrightarrow> keysOrdered t1"
  using assms
proof (induction recs arbitrary: t)
  case Nil
  {
    case 1 then show ?case by simp
  next
    case 2 then show ?case by simp
  next
    case 3 then show ?case by simp
  }
next
  case (Cons r recs)
  {
    case 1
    then obtain t' where m: "measureRecord P vb r t = Inr t'" and l: "measureLoop P vb recs t' = Inr t1"
      by (auto split: sum.splits)
    from measureRecord_facts(1) [OF m] Cons.IH(1) [OF l] show ?case by (rule order_trans)
  next
    case 2
    then obtain t' where m: "measureRecord P vb r t = Inr t'" and l: "measureLoop P vb recs t' = Inr t1"
      by (auto split: sum.splits)
    from measureRecord_facts(2,3) [OF m] 2(1) Cons.IH(2) [OF _ l] show ?case by simp
  next
    case 3
    then obtain t' where m: "measureRecord P vb r t = Inr t'" and l: "measureLoop P vb recs t' = Inr t1"
      by (auto split: sum.splits)
    from measureRecord_facts(2) [OF m] Cons.IH(2) [OF _ l] show ?case by simp
  }
qed

lemma category_measure:
  assumes "category P vb tlv t = (out, Inr t1)"
  shows "\<exists>recs. tlv = Record recs \<and> measureLoop P vb recs t = Inr t1"
proof -
  from assms obtain recs where r: "assertRecord tlv = Inr recs"
    by (auto simp: category_def split: sum.splits)
  then have tlv: "tlv = Record recs" by (cases tlv) (simp_all add: assertRecord_def)
  from assms r obtain t' where m: "measureLoop P vb recs t = Inr t'"
    by (auto simp: category_def split: sum.splits)
  with assms r have "t1 = t'"
    by (auto simp: category_def split: sum.splits prod.splits)
  with tlv m show ?thesis by simp
qed

lemma headerLine_empty: "headerLine P t = [] \<longleftrightarrow> keyOrder t = []"
  by (simp add: headerLine_def nl_def)

lemma secondRange_Nil: "secondRange P [] = []"
  by (simp add: secondRange_def)

lemma category_empty: "category P vb (Record []) t = (headerLine P t, Inr t)"
  by (simp add: category_def assertRecord_def secondRange_Nil emit_def)

lemma categories_append:
  "categories P vb (cs1 @ cs2) t =
     (case categories P vb cs1 t of
        (out, Inl p) \<Rightarrow> (out, Inl p)
      | (out, Inr t1) \<Rightarrow> (case categories P vb cs2 t1 of (out2, r) \<Rightarrow> (out @ out2, r)))"
proof (induction cs1 arbitrary: t)
  case Nil
  then show ?case by (simp split: prod.splits)
next
  case (Cons c cs1)
  show ?case
    by (simp add: Cons.IH split: prod.splits sum.splits)
qed

lemma categories_snoc:
  "categories P vb (cs @ [c]) t =
     (case categories P vb cs t of
        (out, Inl p) \<Rightarrow> (out, Inl p)
      | (out, Inr t1) \<Rightarrow> (case category P vb (snd c) t1 of (out2, r) \<Rightarrow> (out @ out2, r)))"
proof -
  have "categories P vb [c] t1 = category P vb (snd c) t1" for t1
    by (simp split: prod.splits sum.splits)
  then show ?thesis
    by (simp add: categories_append del: categories.simps split: prod.splits sum.splits)
qed

lemma category_facts:
  assumes "category P vb tlv t = (out, Inr t1)"
  shows "maxWidths t k \<le> maxWidths t1 k"
    and "keysOrdered t \<Longrightarrow> keyOrder t1 = keyOrder t \<and> keysOrdered t1"
proof -
  from category_measure [OF assms] obtain recs
    where m: "measureLoop P vb recs t = Inr t1" by blast
  show "maxWidths t k \<le> maxWidths t1 k" by (rule measureLoop_facts(1) [OF m])
  show "keyOrder t1 = keyOrder t \<and> keysOrdered t1" if "keysOrdered t"
    by (rule measureLoop_facts(2) [OF m that])
qed

lemma categories_facts:
  assumes "categories P vb cs t = (out, Inr t1)"
  shows "maxWidths t k \<le> maxWidths t1 k"
    and "keysOrdered t \<Longrightarrow> keyOrder t1 = keyOrder t \<and> keysOrdered t1"
  using assms
proof (induction cs arbitrary: t out)
  case Nil
  {
    case 1 then show ?case by simp
  next
    case 2 then show ?case by simp
  }
next
  case (Cons c cs)
  {
    case 1
    then obtain o1 t' o2 where c: "category P vb (snd c) t = (o1, Inr t')"
      and r: "categories P vb cs t' = (o2, Inr t1)"
      by (auto split: prod.splits sum.splits)
    from category_facts(1) [OF c] Cons.IH(1) [OF r] show ?case by (rule order_trans)
  next
    case 2
    then obtain o1 t' o2 where c: "category P vb (snd c) t = (o1, Inr t')"
      and r: "categories P vb cs t' = (o2, Inr t1)"
      by (auto split: prod.splits sum.splits)
    from category_facts(2) [OF c 2(1)] Cons.IH(2) [OF _ r] show ?case by simp
  }
qed

lemma measureLoop_first:
  assumes "measureLoop P vb ((slk, Record flds) # recs) t = Inr t1" and "\<not> keysOrdered t"
  shows "keyOrder t1 = sort (keyOrder t @ filter (\<lambda>k. vb \<or> k \<notin> set hiddenKeys) (map fst flds))"
proof -
  let ?t' = "(discover vb flds t)\<lparr>maxWidths := foldl (widen P slk) (maxWidths (discover vb flds t)) flds\<rparr>"
  have m: "measureRecord P vb (slk, Record flds) t = Inr ?t'"
    by (simp add: measureRecord_def assertRecord_def Let_def)
  with assms(1) have l: "measureLoop P vb recs ?t' = Inr t1" by simp
  have "keysOrdered ?t'" by (simp add: discover_ordered)
  from measureLoop_facts(2) [OF l this] have "keyOrder t1 = keyOrder ?t'" by simp
  also have "\<dots> = sort (keyOrder t @ filter (\<lambda>k. vb \<or> k \<notin> set hiddenKeys) (map fst flds))"
    using assms(2) by (simp add: discover_def)
  finally show ?thesis .
qed

lemma category_first:
  assumes "category P vb (Record ((slk, slv) # recs)) t = (out, Inr t1)" and "\<not> keysOrdered t"
  shows "\<exists>flds. slv = Record flds \<and>
    keyOrder t1 = sort (keyOrder t @ filter (\<lambda>k. vb \<or> k \<notin> set hiddenKeys) (map fst flds))"
proof -
  from category_measure [OF assms(1)]
  have m: "measureLoop P vb ((slk, slv) # recs) t = Inr t1" by simp
  then obtain flds where s: "slv = Record flds"
    by (cases slv) (simp_all add: measureRecord_def assertRecord_def)
  with measureLoop_first [OF m [unfolded s] assms(2)] show ?thesis by simp
qed

lemma categories_empties:
  "list_all (\<lambda>c. snd c = Record []) cs \<Longrightarrow> keyOrder t = [] \<Longrightarrow> categories P vb cs t = ([], Inr t)"
proof (induction cs)
  case Nil
  then show ?case by simp
next
  case (Cons c cs)
  then have "category P vb (snd c) t = ([], Inr t)"
    by (simp add: category_empty headerLine_def)
  with Cons show ?case by simp
qed

lemma categories_first:
  assumes "categories P vb (cs0 @ (n, Record ((slk, slv) # recs)) # cs) emptyTable = (out, Inr t1)"
    and "list_all (\<lambda>c. snd c = Record []) cs0"
  shows "\<exists>flds. slv = Record flds \<and>
    keyOrder t1 = sort (filter (\<lambda>k. vb \<or> k \<notin> set hiddenKeys) (map fst flds))"
proof -
  have e: "categories P vb cs0 emptyTable = ([], Inr emptyTable)"
    using assms(2) by (rule categories_empties) (simp add: emptyTable_def)
  from assms(1) have "categories P vb ((n, Record ((slk, slv) # recs)) # cs) emptyTable = (out, Inr t1)"
    by (simp add: categories_append e split: prod.splits)
  then obtain o1 t' o2 where c: "category P vb (Record ((slk, slv) # recs)) emptyTable = (o1, Inr t')"
      and r: "categories P vb cs t' = (o2, Inr t1)"
    by (auto split: prod.splits sum.splits)
  have ne: "\<not> keysOrdered emptyTable" by (simp add: emptyTable_def)
  from category_first [OF c ne] obtain flds where s: "slv = Record flds"
    and k: "keyOrder t' = sort (filter (\<lambda>k. vb \<or> k \<notin> set hiddenKeys) (map fst flds))"
    by (auto simp: emptyTable_def)
  from category_measure [OF c] have "measureLoop P vb ((slk, slv) # recs) emptyTable = Inr t'" by simp
  from measureLoop_facts(3) [OF this] have "keysOrdered t'" by simp
  from categories_facts(2) [OF r this] k s show ?thesis by simp
qed

lemma category_output:
  assumes "category P vb (Record recs) t = (out, Inr t1)"
  shows "out = headerLine P t1 @ fst (forEach (rowLine P t1) (secondRange P recs))"
proof -
  from category_measure [OF assms] have m: "measureLoop P vb recs t = Inr t1" by simp
  obtain o2 r2 where f: "forEach (rowLine P t1) (secondRange P recs) = (o2, r2)"
    by (cases "forEach (rowLine P t1) (secondRange P recs)")
  from assms m f show ?thesis
    by (cases r2) (simp_all add: category_def assertRecord_def emit_def)
qed

text \<open>
  Claim C3, as the code has it. \<^verbatim>\<open>maxWidths\<close>, \<^verbatim>\<open>keyOrder\<close> and \<^verbatim>\<open>keysOrdered\<close> are
  declared before the loop over the categories and live through it. The formatter is the
  loop run from the empty table, and every category is rendered by the loop body from the
  very table that the categories before it have left, which it leaves changed for the
  next. Across any run of categories no width shrinks and a column list once made stays
  as it is; the column list is the sorted list of the visible field names of the first
  record visited, whatever comes after it. The text of a category is the header line and
  the rows of the table it leaves. A category without records changes nothing and prints
  no record line; it prints the header line, which is empty exactly when no column has
  been found so far.
\<close>

theorem table_state_persists:
  "handleVariousInfo P res vb =
     (case categories P vb res emptyTable of
        (out, Inl p) \<Rightarrow> (out, Inl p)
      | (out, Inr t1) \<Rightarrow> (out, Inr ())) \<and>
   categories P vb [] t = ([], Inr t) \<and>
   categories P vb (cs @ [c]) t =
     (case categories P vb cs t of
        (out, Inl p) \<Rightarrow> (out, Inl p)
      | (out, Inr t1) \<Rightarrow> (case category P vb (snd c) t1 of (out2, r) \<Rightarrow> (out @ out2, r))) \<and>
   categories P vb (cs1 @ cs2) t =
     (case categories P vb cs1 t of
        (out, Inl p) \<Rightarrow> (out, Inl p)
      | (out, Inr t1) \<Rightarrow> (case categories P vb cs2 t1 of (out2, r) \<Rightarrow> (out @ out2, r))) \<and>
   (categories P vb cs t = (out, Inr t1) \<longrightarrow>
      maxWidths t k \<le> maxWidths t1 k \<and>
      (keysOrdered t \<longrightarrow> keyOrder t1 = keyOrder t \<and> keysOrdered t1)) \<and>
   (categories P vb (cs0 @ (n, Record ((slk, slv) # recs)) # cs) emptyTable = (out, Inr t1) \<longrightarrow>
      list_all (\<lambda>c. snd c = Record []) cs0 \<longrightarrow>
      (\<exists>flds. slv = Record flds \<and>
         keyOrder t1 = sort (filter (\<lambda>k. vb \<or> k \<notin> set hiddenKeys) (map fst flds)))) \<and>
   (category P vb tlv t = (out, Inr t1) \<longrightarrow>
      maxWidths t k \<le> maxWidths t1 k \<and>
      (keysOrdered t \<longrightarrow> keyOrder t1 = keyOrder t \<and> keysOrdered t1) \<and>
      (tlv \<noteq> Record [] \<longrightarrow> keysOrdered t1) \<and>
      (\<exists>rs. tlv = Record rs \<and>
         out = headerLine P t1 @ fst (forEach (rowLine P t1) (secondRange P rs)))) \<and>
   category P vb (Record []) t = (headerLine P t, Inr t) \<and>
   (headerLine P t = [] \<longleftrightarrow> keyOrder t = [])"
proof (intro conjI impI)
  show "handleVariousInfo P res vb =
     (case categories P vb res emptyTable of
        (out, Inl p) \<Rightarrow> (out, Inl p)
      | (out, Inr t1) \<Rightarrow> (out, Inr ()))"
    by (simp add: handleVariousInfo_def)
next
  show "categories P vb [] t = ([], Inr t)" by simp
next
  show "categories P vb (cs @ [c]) t =
     (case categories P vb cs t of
        (out, Inl p) \<Rightarrow> (out, Inl p)
      | (out, Inr t1) \<Rightarrow> (case category P vb (snd c) t1 of (out2, r) \<Rightarrow> (out @ out2, r)))"
    by (rule categories_snoc)
next
  show "categories P vb (cs1 @ cs2) t =
     (case categories P vb cs1 t of
        (out, Inl p) \<Rightarrow> (out, Inl p)
      | (out, Inr t1) \<Rightarrow> (case categories P vb cs2 t1 of (out2, r) \<Rightarrow> (out @ out2, r)))"
    by (rule categories_append)
next
  assume c: "categories P vb cs t = (out, Inr t1)"
  show "maxWidths t k \<le> maxWidths t1 k" by (rule categories_facts(1) [OF c])
  show "keyOrder t1 = keyOrder t" if "keysOrdered t"
    using categories_facts(2) [OF c that] by simp
  show "keysOrdered t1" if "keysOrdered t"
    using categories_facts(2) [OF c that] by simp
next
  assume "categories P vb (cs0 @ (n, Record ((slk, slv) # recs)) # cs) emptyTable = (out, Inr t1)"
    and "list_all (\<lambda>c. snd c = Record []) cs0"
  then show "\<exists>flds. slv = Record flds \<and>
         keyOrder t1 = sort (filter (\<lambda>k. vb \<or> k \<notin> set hiddenKeys) (map fst flds))"
    by (rule categories_first)
next
  assume c: "category P vb tlv t = (out, Inr t1)"
  from category_measure [OF c] obtain rs
    where tlv: "tlv = Record rs" and m: "measureLoop P vb rs t = Inr t1" by blast
  show "maxWidths t k \<le> maxWidths t1 k" by (rule measureLoop_facts(1) [OF m])
  show "keyOrder t1 = keyOrder t" if "keysOrdered t"
    using measureLoop_facts(2) [OF m that] by simp
  show "keysOrdered t1" if "keysOrdered t"
    using measureLoop_facts(2) [OF m that] by simp
  show "keysOrdered t1" if "tlv \<noteq> Record []"
    using that tlv measureLoop_facts(3) [OF m] by simp
  show "\<exists>rs. tlv = Record rs \<and>
         out = headerLine P t1 @ fst (forEach (rowLine P t1) (secondRange P rs))"
    using category_output [OF c [unfolded tlv]] tlv by simp
next
  show "category P vb (Record []) t = (headerLine P t, Inr t)" by (rule category_empty)
next
  show "headerLine P t = [] \<longleftrightarrow> keyOrder t = []" by (rule headerLine_empty)
qed

theorem table_state_persists_witness:
  "category examplePlatform False (Record [(''a'', Record [(''port'', Text ''1'')])]) emptyTable =
     (''   port  '' @ nl @ ''a  1     '' @ nl,
      Inr \<lparr>maxWidths = (\<lambda>k. 0)(''key'' := 1, ''port'' := 4), keyOrder = [''port''],
           keysOrdered = True\<rparr>) \<and>
   category examplePlatform False (Record [(''b'', Record [(''coords'', Text ''[1 2]'')])])
       \<lparr>maxWidths = (\<lambda>k. 0)(''key'' := 1, ''port'' := 4), keyOrder = [''port''],
        keysOrdered = True\<rparr> =
     (''   port  '' @ nl @ ''b  <nil>  '' @ nl,
      Inr \<lparr>maxWidths = (\<lambda>k. 0)(''key'' := 1, ''port'' := 4, ''coords'' := 6),
           keyOrder = [''port''], keysOrdered = True\<rparr>) \<and>
   categories examplePlatform False
     ([(''peers'', Record [(''a'', Record [(''port'', Text ''1'')])])] @
      [(''sessions'', Record [(''b'', Record [(''coords'', Text ''[1 2]'')])])]) emptyTable =
     (''   port  '' @ nl @ ''a  1     '' @ nl @ ''   port  '' @ nl @ ''b  <nil>  '' @ nl,
      Inr \<lparr>maxWidths = (\<lambda>k. 0)(''key'' := 1, ''port'' := 4, ''coords'' := 6),
           keyOrder = [''port''], keysOrdered = True\<rparr>) \<and>
   category examplePlatform False (Record [])
       \<lparr>maxWidths = (\<lambda>k. 0)(''key'' := 1, ''port'' := 4), keyOrder = [''port''],
        keysOrdered = True\<rparr> =
     (''   port  '' @ nl,
      Inr \<lparr>maxWidths = (\<lambda>k. 0)(''key'' := 1, ''port'' := 4), keyOrder = [''port''],
           keysOrdered = True\<rparr>) \<and>
   category examplePlatform False (Record []) emptyTable = ([], Inr emptyTable)"
proof -
  let ?t1 = "\<lparr>maxWidths = (\<lambda>k. 0)(''key'' := 1::nat, ''port'' := 4), keyOrder = [''port''],
           keysOrdered = True\<rparr>"
  let ?t2 = "\<lparr>maxWidths = (\<lambda>k. 0)(''key'' := 1::nat, ''port'' := 4, ''coords'' := 6),
           keyOrder = [''port''], keysOrdered = True\<rparr>"
  let ?peers = "(''peers'', Record [(''a'', Record [(''port'', Text ''1'')])])"
  let ?sessions = "(''sessions'', Record [(''b'', Record [(''coords'', Text ''[1 2]'')])])"
  have c1: "category examplePlatform False (snd ?peers) emptyTable =
     (''   port  '' @ nl @ ''a  1     '' @ nl, Inr ?t1)"
    by (simp add: category_def measureRecord_def discover_def widen_def
      headerLine_def rowLine_def formatCell_def secondRange_def examplePlatform_def emptyTable_def
      hiddenKeys_def Printf_cell_def index_def assertRecord_def emit_def nl_def Let_def
      eval_nat_numeral)
  have c2: "category examplePlatform False (snd ?sessions) ?t1 =
     (''   port  '' @ nl @ ''b  <nil>  '' @ nl, Inr ?t2)"
    by (simp add: category_def measureRecord_def discover_def widen_def
      headerLine_def rowLine_def formatCell_def secondRange_def examplePlatform_def
      hiddenKeys_def Printf_cell_def index_def assertRecord_def emit_def nl_def Let_def
      eval_nat_numeral)
  have c0: "categories examplePlatform False [?peers] emptyTable =
     (''   port  '' @ nl @ ''a  1     '' @ nl, Inr ?t1)"
    using c1 by simp
  note t = table_state_persists [where P = examplePlatform and vb = False]
  have "categories examplePlatform False ([?peers] @ [?sessions]) emptyTable =
     (''   port  '' @ nl @ ''a  1     '' @ nl @ ''   port  '' @ nl @ ''b  <nil>  '' @ nl, Inr ?t2)"
    using t [where cs = "[?peers]" and c = ?sessions and t = emptyTable,
        THEN conjunct2, THEN conjunct2, THEN conjunct1] c0 c2
    by simp
  moreover have h1: "headerLine examplePlatform ?t1 = ''   port  '' @ nl"
    by (simp add: headerLine_def Printf_cell_def examplePlatform_def eval_nat_numeral)
  have h0: "headerLine examplePlatform emptyTable = []"
    by (simp add: headerLine_def emptyTable_def)
  have "category examplePlatform False (Record []) ?t1 = (''   port  '' @ nl, Inr ?t1)"
    using category_empty [of examplePlatform False ?t1] h1 by simp
  moreover have "category examplePlatform False (Record []) emptyTable = ([], Inr emptyTable)"
    using category_empty [of examplePlatform False emptyTable] h0 by simp
  ultimately show ?thesis using c1 c2 by simp
qed

text \<open>
  Claim C3 as it is written fails on two categories, when \<^verbatim>\<open>range\<close> visits \<open>peers\<close>
  first. The empty category \<open>sessions\<close> prints the header of the columns that \<open>peers\<close>
  left; and a second category with a record is printed under the column \<open>port\<close> of the
  first, with its own field \<open>coords\<close> left out.
\<close>

theorem table_state_persists_counterexample:
  "handleVariousInfo examplePlatform
     [(''peers'', Record [(''a'', Record [(''port'', Text ''1'')])]), (''sessions'', Record [])] False =
   (''   port  '' @ nl @ ''a  1     '' @ nl @ ''   port  '' @ nl, Inr ()) \<and>
   handleVariousInfo examplePlatform
     [(''peers'', Record [(''a'', Record [(''port'', Text ''1'')])]),
      (''sessions'', Record [(''b'', Record [(''coords'', Text ''[1 2]'')])])] False =
   (''   port  '' @ nl @ ''a  1     '' @ nl @ ''   port  '' @ nl @ ''b  <nil>  '' @ nl, Inr ())"
  by (simp add: handleVariousInfo_def category_def measureRecord_def discover_def widen_def
      headerLine_def rowLine_def formatCell_def secondRange_def examplePlatform_def emptyTable_def
      hiddenKeys_def Printf_cell_def index_def assertRecord_def emit_def nl_def Let_def
      eval_nat_numeral)

subsection \<open>Rounding to float64 and the quotient by 60\<close>

text \<open>
  The code truncates \<^verbatim>\<open>f/60\<close> and \<^verbatim>\<open>f/60/60\<close>, quotients that \<^verbatim>\<open>float64\<close> division has
  rounded. The lemmas of this section show that the rounding does not reach the next
  whole number: with \<open>u\<close> the unit in the last place of the quotient, a \<^verbatim>\<open>float64\<close> below
  \<open>60 * N\<close> is at least \<open>32 * u\<close> below it, and the quotient is rounded up to \<open>N\<close> only
  within \<open>30 * u\<close> of it.
\<close>

lemma ilog2_bounds:
  assumes "0 < q"
  shows "2 powi ilog2 q \<le> q" and "q < 2 powi (ilog2 q + 1)"
proof -
  obtain n d where nd: "quotient_of q = (n, d)" by (cases "quotient_of q")
  then have d: "0 < d" by (rule quotient_of_denom_pos)
  from nd have q: "q = of_int n / of_int d" by (rule quotient_of_div)
  with assms d have n: "0 < n" by (simp add: zero_less_divide_iff)
  let ?k = "bitlen n - bitlen d"
  from bitlen_bounds [OF n] have n1: "2 ^ nat (bitlen n - 1) \<le> n" and n2: "n < 2 ^ nat (bitlen n)"
    by simp_all
  from bitlen_bounds [OF d] have d1: "2 ^ nat (bitlen d - 1) \<le> d" and d2: "d < 2 ^ nat (bitlen d)"
    by simp_all
  have bn: "1 \<le> bitlen n" and bd: "1 \<le> bitlen d"
    using n d by (auto simp: bitlen_alt_def)
  have n1': "(2::rat) powi (bitlen n - 1) \<le> of_int n"
  proof -
    have "(of_int (2 ^ nat (bitlen n - 1)) :: rat) \<le> of_int n" using n1 by (simp only: of_int_le_iff)
    then show ?thesis using bn by (simp add: power_int_nonneg_exp)
  qed
  have n2': "(of_int n :: rat) < 2 powi bitlen n"
  proof -
    have "(of_int n :: rat) < of_int (2 ^ nat (bitlen n))" using n2 by (simp only: of_int_less_iff)
    then show ?thesis using bn by (simp add: power_int_nonneg_exp)
  qed
  have d1': "(2::rat) powi (bitlen d - 1) \<le> of_int d"
  proof -
    have "(of_int (2 ^ nat (bitlen d - 1)) :: rat) \<le> of_int d" using d1 by (simp only: of_int_le_iff)
    then show ?thesis using bd by (simp add: power_int_nonneg_exp)
  qed
  have d2': "(of_int d :: rat) < 2 powi bitlen d"
  proof -
    have "(of_int d :: rat) < of_int (2 ^ nat (bitlen d))" using d2 by (simp only: of_int_less_iff)
    then show ?thesis using bd by (simp add: power_int_nonneg_exp)
  qed
  have dpos: "(0::rat) < of_int d" using d by simp
  have lo: "(2::rat) powi (?k - 1) \<le> q"
  proof -
    have "(2::rat) powi (?k - 1) * of_int d \<le> 2 powi (?k - 1) * 2 powi bitlen d"
      using d2' by (intro mult_left_mono) simp_all
    also have "\<dots> = 2 powi (bitlen n - 1)"
      by (simp add: power_int_add [symmetric])
    also have "\<dots> \<le> of_int n" by (rule n1')
    finally show ?thesis using dpos by (simp add: q pos_le_divide_eq)
  qed
  have hi: "q < 2 powi (?k + 1)"
  proof -
    have "(of_int n :: rat) < 2 powi bitlen n" by (rule n2')
    also have "\<dots> = 2 powi (?k + 1) * 2 powi (bitlen d - 1)"
      by (simp add: power_int_add [symmetric])
    also have "\<dots> \<le> 2 powi (?k + 1) * of_int d"
      using d1' by (intro mult_left_mono) simp_all
    finally show ?thesis using dpos by (simp add: q pos_divide_less_eq)
  qed
  show "2 powi ilog2 q \<le> q"
    using lo by (simp add: ilog2_def nd Let_def)
  show "q < 2 powi (ilog2 q + 1)"
    using hi by (auto simp: ilog2_def nd Let_def not_le)
qed

lemma ilog2_less:
  assumes "0 < q" and "q < 2 powi j"
  shows "ilog2 q < j"
proof (rule ccontr)
  assume "\<not> ilog2 q < j"
  then have "j \<le> ilog2 q" by simp
  then have "(2::rat) powi j \<le> 2 powi ilog2 q" by (rule power_int_increasing) simp
  also have "\<dots> \<le> q" by (rule ilog2_bounds(1) [OF assms(1)])
  finally show False using assms(2) by simp
qed

lemma roundEven_floor: "\<lfloor>y\<rfloor> \<le> roundEven y \<and> roundEven y \<le> \<lfloor>y\<rfloor> + 1"
  by (simp add: roundEven_def Let_def)

lemma roundEven_ge:
  assumes "of_int k \<le> y"
  shows "k \<le> roundEven y"
proof -
  from assms have "k \<le> \<lfloor>y\<rfloor>" by (simp add: le_floor_iff)
  with roundEven_floor [of y] show ?thesis by linarith
qed

lemma roundEven_lt:
  assumes "y < of_int k - 1 / 2"
  shows "roundEven y < k"
proof -
  have fl: "of_int \<lfloor>y\<rfloor> \<le> y" by simp
  from assms have "y < of_int k" by linarith
  then have "\<lfloor>y\<rfloor> < k" by (simp add: floor_less_iff)
  then consider (near) "\<lfloor>y\<rfloor> = k - 1" | (far) "\<lfloor>y\<rfloor> < k - 1" by linarith
  then show ?thesis
  proof cases
    case near
    with assms have "y - of_int \<lfloor>y\<rfloor> < 1 / 2" by simp
    with near show ?thesis by (simp add: roundEven_def Let_def)
  next
    case far
    with roundEven_floor [of y] show ?thesis by linarith
  qed
qed

lemma roundEven_le:
  assumes "y \<le> of_int k"
  shows "roundEven y \<le> k"
proof (cases "y = of_int k")
  case True
  then show ?thesis by (simp add: roundEven_def Let_def)
next
  case False
  with assms have "y < of_int k" by simp
  then have "\<lfloor>y\<rfloor> < k" by (simp add: floor_less_iff)
  with roundEven_floor [of y] show ?thesis by linarith
qed

lemma round64_pos:
  assumes "0 < x"
  shows "round64 x = of_int (roundEven (x / 2 powi max (ilog2 x - 52) (- 1074))) *
                       2 powi max (ilog2 x - 52) (- 1074)"
  using assms by (simp add: round64_def Let_def)

lemma powi_nonpos:
  assumes "e \<le> 0"
  shows "(2::rat) powi e = 1 / 2 ^ nat (- e)"
proof -
  have "(2::rat) powi e = 2 powi (- (- e))" by simp
  also have "\<dots> = 1 / 2 powi (- e)" by (rule power_int_minus_divide)
  also have "(2::rat) powi (- e) = 2 ^ nat (- e)"
    using assms by (intro power_int_nonneg_exp) simp
  finally show ?thesis .
qed

lemma round64_ge_nat:
  assumes "of_nat n \<le> x" and "x < 2 ^ 52"
  shows "of_nat n \<le> round64 x"
proof (cases "x = 0")
  case True
  with assms show ?thesis by (simp add: round64_def)
next
  case False
  have "(0::rat) \<le> of_nat n" by simp
  from this assms(1) have "0 \<le> x" by (rule order_trans)
  with False have pos: "0 < x" by simp
  define e where "e = max (ilog2 x - 52) (- 1074)"
  have "x < 2 powi 52" using assms(2) by simp
  from ilog2_less [OF pos this] have e: "e \<le> 0" by (simp add: e_def)
  define s where "s = nat (- e)"
  have p: "(2::rat) powi e = 1 / 2 ^ s"
    unfolding s_def using e by (rule powi_nonpos)
  have "round64 x = of_int (roundEven (x / 2 powi e)) * 2 powi e"
    using round64_pos [OF pos] by (simp only: e_def)
  then have r: "round64 x = of_int (roundEven (x * 2 ^ s)) / 2 ^ s"
    by (simp only: p) simp
  have "(of_nat n :: rat) * 2 ^ s \<le> x * 2 ^ s"
    using assms(1) by (rule mult_right_mono) simp
  then have "of_int (int (n * 2 ^ s)) \<le> x * 2 ^ s" by simp
  then have "int (n * 2 ^ s) \<le> roundEven (x * 2 ^ s)" by (rule roundEven_ge)
  then have "(of_int (int (n * 2 ^ s)) :: rat) \<le> of_int (roundEven (x * 2 ^ s))"
    by (simp only: of_int_le_iff)
  then have "of_nat n * 2 ^ s \<le> (of_int (roundEven (x * 2 ^ s)) :: rat)" by simp
  then have "of_nat n \<le> (of_int (roundEven (x * 2 ^ s)) :: rat) / 2 ^ s"
    by (simp add: pos_le_divide_eq)
  then show ?thesis by (simp only: r)
qed

lemma round64_scaled:
  assumes "0 < x" and "x < 2 ^ 52"
  obtains s where "round64 x = of_int (roundEven (x * 2 ^ s)) / 2 ^ s"
    and "(2::rat) powi max (ilog2 x - 52) (- 1074) = 1 / 2 ^ s"
    and "int s = - max (ilog2 x - 52) (- 1074)"
proof -
  define e where "e = max (ilog2 x - 52) (- 1074)"
  have "x < 2 powi 52" using assms(2) by simp
  from ilog2_less [OF assms(1) this] have e: "e \<le> 0" by (simp add: e_def)
  define s where "s = nat (- e)"
  have p: "(2::rat) powi e = 1 / 2 ^ s"
    unfolding s_def using e by (rule powi_nonpos)
  have "round64 x = of_int (roundEven (x / 2 powi e)) * 2 powi e"
    using round64_pos [OF assms(1)] by (simp only: e_def)
  then have r: "round64 x = of_int (roundEven (x * 2 ^ s)) / 2 ^ s"
    by (simp only: p) simp
  have "int s = - e" using e by (simp add: s_def)
  with r p show ?thesis using that by (simp only: e_def)
qed

lemma round64_div60_less:
  assumes fl: "is_float64 f" and f0: "0 \<le> f" and N1: "1 \<le> N" and N2: "N \<le> 2 ^ 48"
    and lt: "f < 60 * of_nat N"
  shows "round64 (f / 60) < of_nat N"
proof (cases "f = 0")
  case True
  with N1 show ?thesis by (simp add: round64_def)
next
  case False
  with f0 have fpos: "0 < f" by simp
  define x where "x = f / 60"
  have xpos: "0 < x" using fpos by (simp add: x_def)
  have xN: "x < of_nat N" using lt by (simp add: x_def)
  have "(of_nat N :: rat) \<le> of_nat (2 ^ 48)" using N2 by (simp only: of_nat_le_iff)
  then have N2': "(of_nat N :: rat) \<le> 2 ^ 48" by simp
  with xN have x48: "x < 2 ^ 48" by simp
  then have x52: "x < 2 ^ 52" by simp
  from x48 have "x < 2 powi 48" by simp
  from ilog2_less [OF xpos this] have il: "ilog2 x < 48" .
  from round64_scaled [OF xpos x52] obtain s
    where r: "round64 x = of_int (roundEven (x * 2 ^ s)) / 2 ^ s"
      and p: "(2::rat) powi max (ilog2 x - 52) (- 1074) = 1 / 2 ^ s"
      and s: "int s = - max (ilog2 x - 52) (- 1074)" by blast
  from s il have s5: "5 \<le> s" by simp
  define F where "F = f * 2 ^ s"
  define G where "G = 60 * (of_nat N :: rat) * 2 ^ s"
  have p1: "(1::rat) \<le> 2 ^ s" by simp
  have gap: "F + 30 < G"
  proof (cases "x < 1 / 2")
    case True
    then have "f < 30" by (simp add: x_def)
    then have "F < 30 * 2 ^ s" by (simp add: F_def)
    moreover have "(1::rat) \<le> of_nat N" using N1 by simp
    then have "60 * (1::rat) * 2 ^ s \<le> G" unfolding G_def
      by (intro mult_right_mono mult_left_mono) simp_all
    moreover have "(30::rat) \<le> 30 * 2 ^ s" using p1 by simp
    ultimately show ?thesis by linarith
  next
    case False
    then have half: "1 / 2 \<le> x" by simp
    have "- 2 < ilog2 x"
    proof (rule ccontr)
      assume "\<not> - 2 < ilog2 x"
      then have "ilog2 x + 1 \<le> - 1" by simp
      then have "(2::rat) powi (ilog2 x + 1) \<le> 2 powi (- 1)"
        by (rule power_int_increasing) simp
      with ilog2_bounds(2) [OF xpos] have "x < 2 powi (- 1)" by simp
      with half show False by (simp add: power_int_minus)
    qed
    then have e: "max (ilog2 x - 52) (- 1074) = ilog2 x - 52" by simp
    with s have s': "int s = 52 - ilog2 x" by simp
    from fl obtain m ef where f: "f = of_int m * 2 powi ef" and m: "\<bar>m\<bar> < 2 ^ 53"
      unfolding is_float64_def by blast
    have pw: "(0::rat) < 2 powi ef" by simp
    from fpos f pw have mpos: "0 < m" by (simp add: zero_less_mult_iff)
    have big: "(2::rat) powi (57 - int s) \<le> f"
    proof -
      have "(2::rat) powi (57 - int s) = 32 * 2 powi ilog2 x"
        using s' by (simp add: power_int_add)
      also have "\<dots> \<le> 32 * x" using ilog2_bounds(1) [OF xpos] by simp
      also have "\<dots> \<le> f" using fpos by (simp add: x_def)
      finally show ?thesis .
    qed
    have ef: "5 - int s \<le> ef"
    proof (rule ccontr)
      assume "\<not> 5 - int s \<le> ef"
      then have "ef \<le> 4 - int s" by simp
      then have "(2::rat) powi ef \<le> 2 powi (4 - int s)"
        by (rule power_int_increasing) simp
      moreover from m mpos have "m < 2 ^ 53" by simp
      then have "(of_int m :: rat) < of_int (2 ^ 53)" by (simp only: of_int_less_iff)
      then have "(of_int m :: rat) < 2 ^ 53" by simp
      ultimately have "of_int m * (2::rat) powi ef < 2 ^ 53 * 2 powi (4 - int s)"
        using pw mpos by (intro mult_less_le_imp_less) simp_all
      also have "\<dots> = 2 powi (57 - int s)"
        by (simp add: power_int_add power_int_diff)
      finally show False using big f by simp
    qed
    define d where "d = nat (ef - (5 - int s))"
    have efd: "ef = 5 + int d - int s" using ef by (simp add: d_def)
    have Fint: "F = of_int (32 * (m * 2 ^ d))"
    proof -
      have "F = of_int m * (2 powi ef * 2 powi int s)" by (simp add: F_def f)
      also have "2 powi ef * (2::rat) powi int s = 2 powi (ef + int s)"
        by (simp add: power_int_add)
      also have "ef + int s = int (5 + d)" using efd by simp
      also have "(2::rat) powi int (5 + d) = 2 ^ (5 + d)" by (rule power_int_of_nat)
      finally show ?thesis by (simp add: power_add)
    qed
    have Gint: "G = of_int (32 * (60 * int N * 2 ^ (s - 5)))"
    proof -
      from s5 have "s = 5 + (s - 5)" by simp
      then have "(2::rat) ^ s = 2 ^ 5 * 2 ^ (s - 5)" by (metis power_add)
      then show ?thesis by (simp add: G_def)
    qed
    have "F < G" using lt by (simp add: F_def G_def)
    then have "32 * (m * 2 ^ d) < 32 * (60 * int N * 2 ^ (s - 5))"
      by (simp only: Fint Gint of_int_less_iff)
    then have "m * 2 ^ d < 60 * int N * 2 ^ (s - 5)" by simp
    then have "m * 2 ^ d + 1 \<le> 60 * int N * 2 ^ (s - 5)" by simp
    then have "32 * (m * 2 ^ d + 1) \<le> 32 * (60 * int N * 2 ^ (s - 5))"
      by (rule mult_left_mono) simp
    then have "32 * (m * 2 ^ d) + 32 \<le> 32 * (60 * int N * 2 ^ (s - 5))"
      by (simp only: distrib_left mult_1_right)
    then have "(of_int (32 * (m * 2 ^ d) + 32) :: rat) \<le> of_int (32 * (60 * int N * 2 ^ (s - 5)))"
      by (simp only: of_int_le_iff)
    then have "F + 32 \<le> G" by (simp only: Fint Gint)
    then show ?thesis by linarith
  qed
  have "x * 2 ^ s = F / 60" by (simp add: F_def x_def)
  also have "\<dots> < (G - 30) / 60" using gap by simp
  also have "\<dots> = of_int (int (N * 2 ^ s)) - 1 / 2" by (simp add: G_def field_simps)
  finally have "roundEven (x * 2 ^ s) < int (N * 2 ^ s)" by (rule roundEven_lt)
  then have "(of_int (roundEven (x * 2 ^ s)) :: rat) < of_int (int (N * 2 ^ s))"
    by (simp only: of_int_less_iff)
  then have "(of_int (roundEven (x * 2 ^ s)) :: rat) < of_nat N * 2 ^ s" by simp
  then have "(of_int (roundEven (x * 2 ^ s)) :: rat) / 2 ^ s < of_nat N"
    by (simp add: pos_divide_less_eq)
  with r have "round64 x < of_nat N" by simp
  then show ?thesis by (simp only: x_def)
qed

lemma round64_is_float64:
  assumes "0 \<le> x" and "x < 2 ^ 52"
  shows "is_float64 (round64 x)"
proof (cases "x = 0")
  case True
  have "(0::rat) = of_int 0 * 2 powi 0 \<and> \<bar>0::int\<bar> < 2 ^ 53 \<and> - 1074 \<le> (0::int) \<and> (0::int) \<le> 971"
    by simp
  then have "is_float64 0" unfolding is_float64_def by blast
  with True show ?thesis by (simp add: round64_def)
next
  case False
  with assms(1) have pos: "0 < x" by simp
  define e where "e = max (ilog2 x - 52) (- 1074)"
  have "x < 2 powi 52" using assms(2) by simp
  from ilog2_less [OF pos this] have e0: "e \<le> 0" by (simp add: e_def)
  have e1: "- 1074 \<le> e" by (simp add: e_def)
  have e2: "ilog2 x + 1 - e \<le> 53" by (simp add: e_def)
  define m where "m = roundEven (x / 2 powi e)"
  have r: "round64 x = of_int m * 2 powi e"
    using round64_pos [OF pos] by (simp only: e_def m_def)
  have pe: "(0::rat) < 2 powi e" by simp
  have "x / 2 powi e < 2 powi (ilog2 x + 1) / 2 powi e"
    using ilog2_bounds(2) [OF pos] pe by (simp add: divide_strict_right_mono)
  also have "\<dots> = 2 powi (ilog2 x + 1 - e)" by (simp add: power_int_diff)
  also have "\<dots> \<le> 2 powi 53" using e2 by (rule power_int_increasing) simp
  finally have "x / 2 powi e \<le> of_int (2 ^ 53)" by simp
  then have m53: "m \<le> 2 ^ 53" unfolding m_def by (rule roundEven_le)
  have "of_int 0 \<le> x / 2 powi e" using pos pe by simp
  then have m0: "0 \<le> m" unfolding m_def by (rule roundEven_ge)
  show ?thesis
  proof (cases "m = 2 ^ 53")
    case True
    have "round64 x = of_int (2 ^ 52) * 2 powi (e + 1)"
      by (simp add: r True power_int_add)
    moreover have "\<bar>2 ^ 52 :: int\<bar> < 2 ^ 53" by simp
    moreover have "- 1074 \<le> e + 1" "e + 1 \<le> 971" using e0 e1 by simp_all
    ultimately show ?thesis unfolding is_float64_def by blast
  next
    case False
    with m53 m0 have "\<bar>m\<bar> < 2 ^ 53" by simp
    moreover have "e \<le> 971" using e0 by simp
    ultimately show ?thesis unfolding is_float64_def using r e1 by blast
  qed
qed

lemma round64_nonneg:
  assumes "0 \<le> x" and "x < 2 ^ 52"
  shows "0 \<le> round64 x"
  using round64_ge_nat [of 0 x] assms by simp

text \<open>The quotient by 60 of a number of seconds, truncated, is the number of minutes.\<close>

lemma floor_div60:
  assumes "is_float64 f" and "0 \<le> f" and "f < 60 * 2 ^ 48 - 60"
  shows "\<lfloor>round64 (f / 60)\<rfloor> = \<lfloor>f / 60\<rfloor>"
proof -
  define n where "n = nat \<lfloor>f / 60\<rfloor>"
  have x0: "0 \<le> f / 60" using assms(2) by simp
  then have n: "int n = \<lfloor>f / 60\<rfloor>" by (simp add: n_def)
  have lo: "of_nat n \<le> f / 60"
  proof -
    have "(of_int (int n) :: rat) \<le> f / 60" unfolding n by (rule of_int_floor_le)
    then show ?thesis by simp
  qed
  have hi: "f / 60 < of_nat (n + 1)"
  proof -
    have "f / 60 < of_int (\<lfloor>f / 60\<rfloor> + 1)" by (simp only: floor_correct)
    then show ?thesis by (simp add: n [symmetric])
  qed
  have x52: "f / 60 < 2 ^ 52" using assms(3) by simp
  have "(of_nat n :: rat) < 2 ^ 48 - 1" using lo assms(3) by simp
  then have "(of_nat (n + 1) :: rat) < of_nat (2 ^ 48)" by simp
  then have "n + 1 < 2 ^ 48" by (simp only: of_nat_less_iff)
  then have N2: "n + 1 \<le> 2 ^ 48" by simp
  have "f < 60 * of_nat (n + 1)" using hi by simp
  from round64_div60_less [OF assms(1,2) _ N2 this]
  have up: "round64 (f / 60) < of_nat (n + 1)" by simp
  from round64_ge_nat [OF lo x52] have low: "of_nat n \<le> round64 (f / 60)" .
  have "\<lfloor>round64 (f / 60)\<rfloor> = int n"
  proof (rule floor_unique)
    show "of_int (int n) \<le> round64 (f / 60)" using low by simp
    show "round64 (f / 60) < of_int (int n) + 1" using up by simp
  qed
  with n show ?thesis by simp
qed

lemma floor_div60_div60:
  assumes "is_float64 f" and "0 \<le> f" and "f < 2 ^ 53"
  shows "\<lfloor>round64 (round64 (f / 60) / 60)\<rfloor> = \<lfloor>f / 3600\<rfloor>"
proof -
  define h where "h = nat \<lfloor>f / 3600\<rfloor>"
  define a where "a = round64 (f / 60)"
  have "0 \<le> f / 3600" using assms(2) by simp
  then have h: "int h = \<lfloor>f / 3600\<rfloor>" by (simp add: h_def)
  have lo: "of_nat h \<le> f / 3600"
  proof -
    have "(of_int (int h) :: rat) \<le> f / 3600" unfolding h by (rule of_int_floor_le)
    then show ?thesis by simp
  qed
  have hi: "f / 3600 < of_nat (h + 1)"
  proof -
    have "f / 3600 < of_int (\<lfloor>f / 3600\<rfloor> + 1)" by (simp only: floor_correct)
    then show ?thesis by (simp add: h [symmetric])
  qed
  have x0: "0 \<le> f / 60" using assms(2) by simp
  have x52: "f / 60 < 2 ^ 52" using assms(3) by simp
  have fa: "is_float64 a" unfolding a_def using x0 x52 by (rule round64_is_float64)
  have a0: "0 \<le> a" unfolding a_def using x0 x52 by (rule round64_nonneg)
  have hb: "(of_nat h :: rat) < 2 ^ 42" using lo assms(3) by simp
  have lo60: "of_nat (60 * h) \<le> f / 60" using lo by simp
  from round64_ge_nat [OF lo60 x52] have a_lo: "of_nat (60 * h) \<le> a" by (simp only: a_def)
  have "(of_nat (60 * (h + 1)) :: rat) < of_nat (2 ^ 48)" using hb by simp
  then have "60 * (h + 1) < 2 ^ 48" by (simp only: of_nat_less_iff)
  then have N60: "60 * (h + 1) \<le> 2 ^ 48" by simp
  have "f < 60 * of_nat (60 * (h + 1))" using hi by simp
  from round64_div60_less [OF assms(1,2) _ N60 this] have a_hi: "a < of_nat (60 * (h + 1))"
    by (simp add: a_def)
  have a52: "a / 60 < 2 ^ 52" using a_hi hb by simp
  have lo': "of_nat h \<le> a / 60" using a_lo by simp
  from round64_ge_nat [OF lo' a52] have b_lo: "of_nat h \<le> round64 (a / 60)" .
  have "(of_nat (h + 1) :: rat) < of_nat (2 ^ 48)" using hb by simp
  then have "h + 1 < 2 ^ 48" by (simp only: of_nat_less_iff)
  then have N1: "h + 1 \<le> 2 ^ 48" by simp
  have "a < 60 * of_nat (h + 1)" using a_hi by simp
  from round64_div60_less [OF fa a0 _ N1 this] have b_hi: "round64 (a / 60) < of_nat (h + 1)"
    by simp
  have "\<lfloor>round64 (a / 60)\<rfloor> = int h"
  proof (rule floor_unique)
    show "of_int (int h) \<le> round64 (a / 60)" using b_lo by simp
    show "round64 (a / 60) < of_int (int h) + 1" using b_hi by simp
  qed
  with h show ?thesis by (simp add: a_def)
qed

subsection \<open>The time columns\<close>

lemma toUint_floor:
  assumes "0 \<le> y" and "y < 2 ^ 64"
  shows "toUint P y = nat \<lfloor>y\<rfloor>"
proof -
  from assms(1) have t: "trunc y = \<lfloor>y\<rfloor>" by (simp add: trunc_def)
  from assms(1) have "0 \<le> \<lfloor>y\<rfloor>" by simp
  moreover have "y < of_int (2 ^ 64)" using assms(2) by simp
  then have "\<lfloor>y\<rfloor> < 2 ^ 64" by (simp only: floor_less_iff)
  ultimately show ?thesis by (simp add: toUint_def t)
qed

lemma length_showNat_small: "n < 10 \<Longrightarrow> length (showNat n) = 1"
  by (simp add: showNat.simps)

lemma length_showNat_two: "10 \<le> n \<Longrightarrow> n < 100 \<Longrightarrow> length (showNat n) = 2"
proof -
  assume a: "10 \<le> n" "n < 100"
  then have "n div 10 < 10" by simp
  then have "length (showNat (n div 10)) = 1" by (rule length_showNat_small)
  moreover from a have "showNat n = showNat (n div 10) @ [''0123456789'' ! (n mod 10)]"
    by (subst showNat.simps) simp
  ultimately show ?thesis by simp
qed

lemma length_showNat_pos: "1 \<le> length (showNat n)"
  by (subst showNat.simps) simp

lemma length_pad02_small: "n < 100 \<Longrightarrow> length (pad02 n) = 2"
proof (cases "n < 10")
  case True
  then show ?thesis by (simp add: pad02_def length_showNat_small)
next
  case False
  assume "n < 100"
  with False have "length (showNat n) = 2" by (intro length_showNat_two) simp_all
  then show ?thesis by (simp add: pad02_def)
qed

lemma length_pad02: "2 \<le> length (pad02 n)"
  using length_showNat_pos [of n] by (simp add: pad02_def)

lemma is_float64_of_nat:
  assumes "n < 2 ^ 53"
  shows "is_float64 (of_nat n)"
proof -
  have "(of_nat n :: rat) = of_int (int n) * 2 powi 0" by simp
  moreover have "\<bar>int n\<bar> < 2 ^ 53" using assms by simp
  ultimately show ?thesis unfolding is_float64_def by fastforce
qed

text \<open>
  Claim C7, as the code has it. For a column \<open>uptime\<close> or \<open>last_seen\<close> whose value is a
  \<^verbatim>\<open>float64\<close> of at least 0 and below \<open>2 ^ 53\<close> seconds, the cell is hours, minutes and
  seconds with colons between them: the hours are the seconds over 3600, the minutes the
  seconds over 60 modulo 60, the seconds modulo 60, each rounded down, although the code
  divides in \<^verbatim>\<open>float64\<close> and rounds each quotient before it truncates. Minutes and
  seconds have two digits; the hours are padded with a zero to two digits and have more
  when they need more.
\<close>

theorem time_format:
  assumes "is_float64 f" and "0 \<le> f" and "f < 2 ^ 53"
    and "k = ''uptime'' \<or> k = ''last_seen''" and "index flds k = Number f"
  shows "formatCell P t (Record flds) k =
           emit (Printf_cell P (maxWidths t k)
             (pad02 (nat \<lfloor>f / 3600\<rfloor>) @ '':'' @ pad02 (nat \<lfloor>f / 60\<rfloor> mod 60) @ '':'' @
              pad02 (nat \<lfloor>f\<rfloor> mod 60))) \<and>
         2 \<le> length (pad02 (nat \<lfloor>f / 3600\<rfloor>)) \<and>
         length (pad02 (nat \<lfloor>f / 60\<rfloor> mod 60)) = 2 \<and>
         length (pad02 (nat \<lfloor>f\<rfloor> mod 60)) = 2"
proof -
  have s: "toUint P f = nat \<lfloor>f\<rfloor>"
    using assms(2,3) by (intro toUint_floor) simp_all
  have x0: "0 \<le> f / 60" using assms(2) by simp
  have x52: "f / 60 < 2 ^ 52" using assms(3) by simp
  have a0: "0 \<le> round64 (f / 60)" using x0 x52 by (rule round64_nonneg)
  have fl: "\<lfloor>round64 (f / 60)\<rfloor> = \<lfloor>f / 60\<rfloor>"
    using assms(1-3) by (intro floor_div60) simp_all
  have "\<lfloor>f / 60\<rfloor> < 2 ^ 64"
  proof -
    have "f / 60 < of_int (2 ^ 64)" using assms(3) by simp
    then show ?thesis by (simp only: floor_less_iff)
  qed
  with fl have "\<lfloor>round64 (f / 60)\<rfloor> < 2 ^ 64" by simp
  then have "round64 (f / 60) < of_int (2 ^ 64)" by (simp only: floor_less_iff)
  then have a64: "round64 (f / 60) < 2 ^ 64" by simp
  have m: "toUint P (fdiv f 60) = nat \<lfloor>f / 60\<rfloor>"
    using toUint_floor [OF a0 a64, of P] fl by (simp add: fdiv_def)
  have flh: "\<lfloor>round64 (round64 (f / 60) / 60)\<rfloor> = \<lfloor>f / 3600\<rfloor>"
    using assms(1-3) by (rule floor_div60_div60)
  have "0 \<le> \<lfloor>f / 3600\<rfloor>" using assms(2) by simp
  with flh have "0 \<le> \<lfloor>round64 (round64 (f / 60) / 60)\<rfloor>" by simp
  then have b0: "0 \<le> round64 (round64 (f / 60) / 60)" by (simp only: zero_le_floor)
  have "\<lfloor>f / 3600\<rfloor> < 2 ^ 64"
  proof -
    have "f / 3600 < of_int (2 ^ 64)" using assms(3) by simp
    then show ?thesis by (simp only: floor_less_iff)
  qed
  with flh have "\<lfloor>round64 (round64 (f / 60) / 60)\<rfloor> < 2 ^ 64" by simp
  then have "round64 (round64 (f / 60) / 60) < of_int (2 ^ 64)" by (simp only: floor_less_iff)
  then have b64: "round64 (round64 (f / 60) / 60) < 2 ^ 64" by simp
  have h: "toUint P (fdiv (fdiv f 60) 60) = nat \<lfloor>f / 3600\<rfloor>"
    using toUint_floor [OF b0 b64, of P] flh by (simp add: fdiv_def)
  have ft: "formatTime P f =
           pad02 (nat \<lfloor>f / 3600\<rfloor>) @ '':'' @ pad02 (nat \<lfloor>f / 60\<rfloor> mod 60) @ '':'' @
           pad02 (nat \<lfloor>f\<rfloor> mod 60)"
    by (simp add: formatTime_def Let_def s m h)
  have "formatCell P t (Record flds) k = emit (Printf_cell P (maxWidths t k) (formatTime P f))"
    using assms(4,5) by (auto simp: formatCell_def assertRecord_def assertNumber_def Let_def)
  then have "formatCell P t (Record flds) k =
           emit (Printf_cell P (maxWidths t k)
             (pad02 (nat \<lfloor>f / 3600\<rfloor>) @ '':'' @ pad02 (nat \<lfloor>f / 60\<rfloor> mod 60) @ '':'' @
              pad02 (nat \<lfloor>f\<rfloor> mod 60)))"
    by (simp only: ft)
  moreover have "2 \<le> length (pad02 (nat \<lfloor>f / 3600\<rfloor>))" by (rule length_pad02)
  moreover have "length (pad02 (nat \<lfloor>f / 60\<rfloor> mod 60)) = 2" by (rule length_pad02_small) simp
  moreover have "length (pad02 (nat \<lfloor>f\<rfloor> mod 60)) = 2" by (rule length_pad02_small) simp
  ultimately show ?thesis by blast
qed

text \<open>The two examples of the claim: 125 seconds and 3661 seconds.\<close>

theorem time_format_witness:
  "is_float64 125 \<and>
   formatCell examplePlatform emptyTable (Record [(''uptime'', Number 125)]) ''uptime'' =
     emit (''00:02:05'' @ ''  '') \<and>
   is_float64 3661 \<and>
   formatCell examplePlatform emptyTable (Record [(''last_seen'', Number 3661)]) ''last_seen'' =
     emit (''01:01:01'' @ ''  '')"
proof -
  have f1: "is_float64 125" using is_float64_of_nat [of 125] by simp
  have f2: "is_float64 3661" using is_float64_of_nat [of 3661] by simp
  have p1: "pad02 (nat \<lfloor>(125::rat) / 3600\<rfloor>) = ''00''"
    "pad02 (nat \<lfloor>(125::rat) / 60\<rfloor> mod 60) = ''02''"
    "pad02 (nat \<lfloor>125::rat\<rfloor> mod 60) = ''05''"
    by code_simp+
  have p2: "pad02 (nat \<lfloor>(3661::rat) / 3600\<rfloor>) = ''01''"
    "pad02 (nat \<lfloor>(3661::rat) / 60\<rfloor> mod 60) = ''01''"
    "pad02 (nat \<lfloor>3661::rat\<rfloor> mod 60) = ''01''"
    by code_simp+
  have i1: "index [(''uptime'', Number 125)] ''uptime'' = Number 125" by (simp add: index_def)
  have i2: "index [(''last_seen'', Number 3661)] ''last_seen'' = Number 3661"
    by (simp add: index_def)
  have "formatCell examplePlatform emptyTable (Record [(''uptime'', Number 125)]) ''uptime'' =
      emit (Printf_cell examplePlatform (maxWidths emptyTable ''uptime'') ''00:02:05'')"
    using time_format [OF f1 _ _ _ i1, of examplePlatform emptyTable, THEN conjunct1]
    by (simp only: p1) simp
  moreover have "formatCell examplePlatform emptyTable (Record [(''last_seen'', Number 3661)])
      ''last_seen'' =
      emit (Printf_cell examplePlatform (maxWidths emptyTable ''last_seen'') ''01:01:01'')"
    using time_format [OF f2 _ _ _ i2, of examplePlatform emptyTable, THEN conjunct1]
    by (simp only: p2) simp
  ultimately show ?thesis using f1 f2
    by (simp add: Printf_cell_def emptyTable_def examplePlatform_def)
qed

text \<open>
  Claim C7 as it is written, for every value that is not negative, fails on large ones:
  at \<open>2 ^ 63\<close> seconds the quotient by 60 is rounded to a multiple of 32 before it is
  truncated, and the minutes come out as 28 where the seconds over 60, rounded down,
  modulo 60 are 30.
\<close>

theorem time_format_counterexample:
  "is_float64 9223372036854775808 \<and>
   formatTime examplePlatform 9223372036854775808 = ''2562047788015215:28:08'' \<and>
   pad02 (nat \<lfloor>(9223372036854775808::rat) / 60\<rfloor> mod 60) = ''30''"
proof -
  have fl: "is_float64 9223372036854775808"
  proof -
    have "(9223372036854775808::rat) = of_int 1 * 2 powi 63 \<and> \<bar>1::int\<bar> < 2 ^ 53 \<and>
        - 1074 \<le> (63::int) \<and> (63::int) \<le> 971" by simp
    then show ?thesis unfolding is_float64_def by blast
  qed
  have r1: "round64 (9223372036854775808 / 60) = 153722867280912928" by code_simp
  have r2: "round64 (153722867280912928 / 60) = 5124095576030431 / 2" by code_simp
  have f1: "\<lfloor>(5124095576030431::rat) / 2\<rfloor> = 2562047788015215"
    by (rule floor_unique) simp_all
  have f2: "\<lfloor>(9223372036854775808::rat) / 60\<rfloor> = 153722867280912930"
    by (rule floor_unique) simp_all
  have s: "toUint examplePlatform 9223372036854775808 mod 60 = 8"
    by (simp add: toUint_def trunc_def)
  have m: "toUint examplePlatform (fdiv 9223372036854775808 60) mod 60 = 28"
    by (simp only: fdiv_def r1) (simp add: toUint_def trunc_def)
  have h: "toUint examplePlatform (fdiv (fdiv 9223372036854775808 60) 60) = 2562047788015215"
    by (simp only: fdiv_def r1 r2) (simp add: toUint_def trunc_def f1)
  have "formatTime examplePlatform 9223372036854775808 = ''2562047788015215:28:08''"
    by (simp add: formatTime_def Let_def s m h pad02_def showNat.simps)
  moreover have "pad02 (nat \<lfloor>(9223372036854775808::rat) / 60\<rfloor> mod 60) = ''30''"
    by (simp only: f2) (simp add: pad02_def showNat.simps)
  ultimately show ?thesis using fl by simp
qed

end
